theory Spec2Isabelle
  imports Complex_Main "HOL-Library.Log_Nat" "HOL-Library.Word" "HOL-Library.Sublist"
    "HOL-Library.Code_Target_Numeral"
begin

section \<open>JavaScript Number values\<close>

text \<open>
  Every number of the program is an ECMAScript Number: an IEEE 754 binary64 value. The
  finite ones are carried by the rational they denote, so that each operation is the exact
  operation followed by rounding to nearest, ties to even. The two zeros of binary64 are
  identified: the only zero by which the program divides is \<open>1 - targetDecimal\<close>, which is
  \<open>+0\<close> under round to nearest, and no comparison or output of the program separates
  \<open>-0\<close> from \<open>+0\<close>.
\<close>

datatype jsnum = NaN | PInf | NInf | Fin rat

definition ilog2 :: "rat \<Rightarrow> int" where
  \<comment> \<open>for \<open>0 < x\<close>: the \<open>e\<close> with \<open>2^e \<le> x < 2^(e+1)\<close>\<close>
  "ilog2 x = (case quotient_of x of (p, q) \<Rightarrow>
     let e = bitlen p - bitlen q in if 2 powi e \<le> x then e else e - 1)"

definition rne :: "rat \<Rightarrow> int" where
  \<comment> \<open>nearest integer, ties to the even one\<close>
  "rne m = (let f = \<lfloor>m\<rfloor>; d = m - of_int f in
     if d < 1 / 2 then f else if 1 / 2 < d then f + 1 else if even f then f else f + 1)"

definition ulp_exp :: "rat \<Rightarrow> int" where
  \<comment> \<open>exponent of the last place of the binary64 format at \<open>x \<noteq> 0\<close>: 53 significant bits,
      least exponent \<open>-1022\<close> (below it the subnormal spacing \<open>2^-1074\<close>)\<close>
  "ulp_exp x = max (ilog2 \<bar>x\<bar>) (- 1022) - 52"

definition round_binary64 :: "rat \<Rightarrow> rat" where
  \<comment> \<open>the nearest multiple of the last place, ties to the even significand\<close>
  "round_binary64 x = (let u = 2 powi ulp_exp x in of_int (rne (x / u)) * u)"

definition fl :: "rat \<Rightarrow> jsnum" where
  \<comment> \<open>the Number value for a rational: round to nearest, ties to even, overflow to infinity\<close>
  "fl x = (if x = 0 then Fin 0 else
     let r = round_binary64 x in
     if 2 ^ 1024 \<le> r then PInf else if r \<le> - (2 ^ 1024) then NInf else Fin r)"

fun js_neg :: "jsnum \<Rightarrow> jsnum" where
  "js_neg NaN = NaN"
| "js_neg PInf = NInf"
| "js_neg NInf = PInf"
| "js_neg (Fin a) = Fin (- a)"

fun js_add :: "jsnum \<Rightarrow> jsnum \<Rightarrow> jsnum" where
  "js_add (Fin a) (Fin b) = fl (a + b)"
| "js_add NaN _ = NaN"
| "js_add _ NaN = NaN"
| "js_add PInf NInf = NaN"
| "js_add NInf PInf = NaN"
| "js_add PInf _ = PInf"
| "js_add NInf _ = NInf"
| "js_add _ PInf = PInf"
| "js_add _ NInf = NInf"

definition js_sub :: "jsnum \<Rightarrow> jsnum \<Rightarrow> jsnum" where
  "js_sub x y = js_add x (js_neg y)"

definition sgn_inf :: "rat \<Rightarrow> jsnum" where
  \<comment> \<open>an infinity times, or a finite number over zero: \<open>NaN\<close> at zero, else the infinity
      of that sign\<close>
  "sgn_inf a = (if a = 0 then NaN else if 0 < a then PInf else NInf)"

fun js_mul :: "jsnum \<Rightarrow> jsnum \<Rightarrow> jsnum" where
  "js_mul (Fin a) (Fin b) = fl (a * b)"
| "js_mul NaN _ = NaN"
| "js_mul _ NaN = NaN"
| "js_mul PInf (Fin b) = sgn_inf b"
| "js_mul NInf (Fin b) = sgn_inf (- b)"
| "js_mul (Fin a) PInf = sgn_inf a"
| "js_mul (Fin a) NInf = sgn_inf (- a)"
| "js_mul PInf PInf = PInf"
| "js_mul NInf NInf = PInf"
| "js_mul PInf NInf = NInf"
| "js_mul NInf PInf = NInf"

fun js_div :: "jsnum \<Rightarrow> jsnum \<Rightarrow> jsnum" where
  "js_div (Fin a) (Fin b) = (if b = 0 then sgn_inf a else fl (a / b))"
| "js_div NaN _ = NaN"
| "js_div _ NaN = NaN"
| "js_div PInf (Fin b) = (if 0 \<le> b then PInf else NInf)"
| "js_div NInf (Fin b) = (if 0 \<le> b then NInf else PInf)"
| "js_div (Fin a) PInf = Fin 0"
| "js_div (Fin a) NInf = Fin 0"
| "js_div _ _ = NaN"

fun js_lt :: "jsnum \<Rightarrow> jsnum \<Rightarrow> bool" where
  "js_lt (Fin a) (Fin b) = (a < b)"
| "js_lt NaN _ = False"
| "js_lt _ NaN = False"
| "js_lt _ NInf = False"
| "js_lt PInf _ = False"
| "js_lt NInf _ = True"
| "js_lt _ PInf = True"

fun js_le :: "jsnum \<Rightarrow> jsnum \<Rightarrow> bool" where
  "js_le (Fin a) (Fin b) = (a \<le> b)"
| "js_le NaN _ = False"
| "js_le _ NaN = False"
| "js_le NInf _ = True"
| "js_le _ PInf = True"
| "js_le _ NInf = False"
| "js_le PInf _ = False"

definition js_gt :: "jsnum \<Rightarrow> jsnum \<Rightarrow> bool" where
  "js_gt x y = js_lt y x"

definition js_ge :: "jsnum \<Rightarrow> jsnum \<Rightarrow> bool" where
  "js_ge x y = js_le y x"

fun Math_ceil :: "jsnum \<Rightarrow> jsnum" where
  "Math_ceil (Fin a) = Fin (of_int \<lceil>a\<rceil>)"
| "Math_ceil x = x"

fun falsy :: "jsnum \<Rightarrow> bool" where
  \<comment> \<open>\<open>!x\<close> on a Number: true at zero and at \<open>NaN\<close>\<close>
  "falsy NaN = True"
| "falsy (Fin a) = (a = 0)"
| "falsy _ = False"

definition num :: "int \<Rightarrow> jsnum" where
  \<comment> \<open>the Number holding the integer \<open>n\<close>\<close>
  "num n = Fin (of_int n)"

section \<open>Calculations\<close>

definition calculatePercentage :: "jsnum \<Rightarrow> jsnum \<Rightarrow> jsnum" where
  "calculatePercentage present conducted =
     (if falsy conducted then Fin 0
      else js_mul (js_div present conducted) (Fin 100))"

definition calculateProjection :: "jsnum \<Rightarrow> jsnum \<Rightarrow> jsnum \<Rightarrow> jsnum" where
  "calculateProjection present conducted target =
     (let targetDecimal = js_div target (Fin 100) in
      if js_gt conducted (Fin 0) \<and> js_ge (js_div present conducted) targetDecimal then Fin 0
      else
        let needed = Math_ceil (js_div (js_sub (js_mul targetDecimal conducted) present)
                                       (js_sub (Fin 1) targetDecimal))
        in if js_gt needed (Fin 0) then needed else Fin 0)"

definition clamp_needed :: "jsnum \<Rightarrow> jsnum" where
  \<comment> \<open>the last two lines of \<open>calculateProjection\<close>, as a function of the quotient\<close>
  "clamp_needed q = (let needed = Math_ceil q in if js_gt needed (Fin 0) then needed else Fin 0)"

definition is_nonneg_integer :: "jsnum \<Rightarrow> bool" where
  \<comment> \<open>the Number is a non-negative integer (so neither \<open>NaN\<close> nor an infinity)\<close>
  "is_nonneg_integer x = (case x of Fin r \<Rightarrow> 0 \<le> r \<and> of_int \<lfloor>r\<rfloor> = r | _ \<Rightarrow> False)"


definition meets_target :: "int \<Rightarrow> int \<Rightarrow> int \<Rightarrow> int \<Rightarrow> bool" where
  \<comment> \<open>the specification's condition on \<open>n\<close> further classes, all conducted and attended:
      \<open>(present + n) / (conducted + n) \<ge> target / 100\<close>, over the rationals\<close>
  "meets_target present conducted target n =
     ((of_int target :: rat) / 100 \<le> of_int (present + n) / of_int (conducted + n))"

section \<open>Subject records and the summary\<close>

type_synonym jsstring = "16 word list"

text \<open>
  A subject as the snapshot listener builds it: the document id and the fields of the
  document. A count that the document lacks reads as \<open>undefined\<close>, here \<open>None\<close>.
\<close>

record subject =
  id' :: jsstring
  name :: jsstring
  type :: jsstring
  conducted :: "jsnum option"
  present :: "jsnum option"

record summary =
  totalConducted :: jsnum
  totalPresent :: jsnum
  overallPercentage :: jsnum

definition or0 :: "jsnum option \<Rightarrow> jsnum" where
  \<comment> \<open>\<open>x || 0\<close>: the value unless it is \<open>undefined\<close>, zero or \<open>NaN\<close>\<close>
  "or0 v = (case v of None \<Rightarrow> Fin 0 | Some x \<Rightarrow> if falsy x then Fin 0 else x)"

definition ToNumber :: "jsnum option \<Rightarrow> jsnum" where
  \<comment> \<open>the operand of an arithmetic operator: \<open>undefined\<close> converts to \<open>NaN\<close>\<close>
  "ToNumber v = (case v of None \<Rightarrow> NaN | Some x \<Rightarrow> x)"

definition compute_summary :: "subject list \<Rightarrow> summary" where
  "compute_summary subjects =
     (let totalConducted = foldl (\<lambda>sum s. js_add sum (or0 (conducted s))) (Fin 0) subjects;
          totalPresent = foldl (\<lambda>sum s. js_add sum (or0 (present s))) (Fin 0) subjects;
          overallPercentage = calculatePercentage totalPresent totalConducted
      in \<lparr>totalConducted = totalConducted, totalPresent = totalPresent,
          overallPercentage = overallPercentage\<rparr>)"



section \<open>The absent cells of the attendance table\<close>

definition absent_cell :: "subject \<Rightarrow> jsnum" where
  \<comment> \<open>the per-subject cell: \<open>absent < 0 ? 0 : absent\<close>\<close>
  "absent_cell s =
     (let absent = js_sub (ToNumber (conducted s)) (ToNumber (present s))
      in if js_lt absent (Fin 0) then Fin 0 else absent)"

definition overall_absent_cell :: "summary \<Rightarrow> jsnum" where
  \<comment> \<open>the footer cell: \<open>summary.totalConducted - summary.totalPresent\<close>\<close>
  "overall_absent_cell sm = js_sub (totalConducted sm) (totalPresent sm)"

section \<open>Strings\<close>

text \<open>
  An ECMAScript string is a sequence of 16-bit code units. \<open>lit\<close> embeds the ASCII
  literals of the source.
\<close>

definition lit :: "string \<Rightarrow> jsstring" where
  "lit s = map of_char s"

definition isWhiteSpace :: "16 word \<Rightarrow> bool" where
  \<comment> \<open>the code units \<open>String.prototype.trim\<close> strips: WhiteSpace and LineTerminator\<close>
  "isWhiteSpace c = (c \<in> set [0x9, 0xA, 0xB, 0xC, 0xD, 0x20, 0xA0, 0x1680,
     0x2000, 0x2001, 0x2002, 0x2003, 0x2004, 0x2005, 0x2006, 0x2007, 0x2008, 0x2009, 0x200A,
     0x2028, 0x2029, 0x202F, 0x205F, 0x3000, 0xFEFF])"

definition trimStart :: "jsstring \<Rightarrow> jsstring" where
  "trimStart s = dropWhile isWhiteSpace s"

definition trimEnd :: "jsstring \<Rightarrow> jsstring" where
  "trimEnd s = rev (dropWhile isWhiteSpace (rev s))"

definition trim :: "jsstring \<Rightarrow> jsstring" where
  "trim s = trimEnd (trimStart s)"

section \<open>Numbers to strings\<close>

fun dec_digits :: "nat \<Rightarrow> jsstring" where
  "dec_digits n = (if n < 10 then [of_nat (48 + n)]
                   else dec_digits (n div 10) @ [of_nat (48 + n mod 10)])"

definition ilog10 :: "rat \<Rightarrow> int" where
  \<comment> \<open>for \<open>0 < x\<close>: the \<open>e\<close> with \<open>10^e \<le> x < 10^(e+1)\<close>\<close>
  "ilog10 x = (case quotient_of x of (p, q) \<Rightarrow>
     let e = int (floorlog 10 (nat p)) - int (floorlog 10 (nat q))
     in if 10 powi e \<le> x then e else e - 1)"

definition decimal_candidates :: "rat \<Rightarrow> nat \<Rightarrow> (int \<times> int) list" where
  \<comment> \<open>the pairs \<open>(s, n)\<close> with \<open>10^(k-1) \<le> s < 10^k\<close> whose decimal \<open>s \<times> 10^(n-k)\<close> has \<open>x\<close>
      as its Number value; only the two multiples of \<open>10^(n-k)\<close> around \<open>x\<close> can qualify\<close>
  "decimal_candidates x k =
     concat (map (\<lambda>n. let f = \<lfloor>x / 10 powi (n - int k)\<rfloor> in
                     filter (\<lambda>(s, n). 10 ^ (k - 1) \<le> s \<and> s < 10 ^ k
                                  \<and> fl (of_int s * 10 powi (n - int k)) = Fin x)
                            [(f, n), (f + 1, n)])
                 [ilog10 x + 1, ilog10 x + 2])"

definition closer :: "rat \<Rightarrow> nat \<Rightarrow> int \<times> int \<Rightarrow> int \<times> int \<Rightarrow> int \<times> int" where
  \<comment> \<open>of two candidates the one nearer to \<open>x\<close>, the even \<open>s\<close> when they are equally near\<close>
  "closer x k a b =
     (let da = \<bar>of_int (fst a) * 10 powi (snd a - int k) - x\<bar>;
          db = \<bar>of_int (fst b) * 10 powi (snd b - int k) - x\<bar>
      in if da < db then a else if db < da then b else if even (fst a) then a else b)"

fun shortest_digits :: "rat \<Rightarrow> nat list \<Rightarrow> int \<times> nat \<times> int" where
  \<comment> \<open>\<open>(s, k, n)\<close> with \<open>k\<close> as small as possible\<close>
  "shortest_digits x [] = (\<lfloor>x / 10 powi (ilog10 x + 1 - 17)\<rfloor>, 17, ilog10 x + 1)"
| "shortest_digits x (k # ks) =
     (case decimal_candidates x k of
        [] \<Rightarrow> shortest_digits x ks
      | c # cs \<Rightarrow> (case foldl (closer x k) c cs of (s, n) \<Rightarrow> (s, k, n)))"

definition format_decimal :: "int \<times> nat \<times> int \<Rightarrow> jsstring" where
  \<comment> \<open>the layout steps of Number::toString for radix 10\<close>
  "format_decimal t = (case t of (s, k, n) \<Rightarrow>
     let ds = dec_digits (nat s) in
     if int k \<le> n \<and> n \<le> 21 then ds @ replicate (nat (n - int k)) (of_char CHR ''0'')
     else if 0 < n \<and> n \<le> 21 then take (nat n) ds @ lit ''.'' @ drop (nat n) ds
     else if - 6 < n \<and> n \<le> 0 then lit ''0.'' @ replicate (nat (- n)) (of_char CHR ''0'') @ ds
     else
       let e = n - 1;
           ex = (if e < 0 then lit ''-'' else lit ''+'') @ dec_digits (nat \<bar>e\<bar>)
       in if k = 1 then ds @ lit ''e'' @ ex
          else take 1 ds @ lit ''.'' @ drop 1 ds @ lit ''e'' @ ex)"

definition Number_toString :: "jsnum \<Rightarrow> jsstring" where
  \<comment> \<open>Number::toString(x, 10); among the shortest decimals that read back as \<open>x\<close> the nearest
      one is taken, as the standard recommends and the engines do\<close>
  "Number_toString x = (case x of
       NaN \<Rightarrow> lit ''NaN''
     | PInf \<Rightarrow> lit ''Infinity''
     | NInf \<Rightarrow> lit ''-Infinity''
     | Fin r \<Rightarrow>
         if r = 0 then lit ''0''
         else if r < 0 then lit ''-'' @ format_decimal (shortest_digits (- r) [1..<18])
         else format_decimal (shortest_digits r [1..<18]))"

definition toFixed :: "nat \<Rightarrow> jsnum \<Rightarrow> jsstring" where
  \<comment> \<open>Number.prototype.toFixed(f) for \<open>f\<close> between 0 and 100\<close>
  "toFixed f x = (case x of
       Fin r \<Rightarrow>
         let s = (if r < 0 then lit ''-'' else []); a = \<bar>r\<bar> in
         if 10 ^ 21 \<le> a then s @ Number_toString (Fin a)
         else
           let n = \<lfloor>a * 10 ^ f + 1 / 2\<rfloor>;
               m = dec_digits (nat n);
               m = (if f = 0 then m
                    else let m = (if length m \<le> f then replicate (f + 1 - length m) (of_char CHR ''0'') @ m else m)
                         in take (length m - f) m @ lit ''.'' @ drop (length m - f) m)
           in s @ m
     | _ \<Rightarrow> Number_toString x)"

section \<open>Strings to numbers\<close>

definition isDigit :: "16 word \<Rightarrow> bool" where
  "isDigit c = (0x30 \<le> c \<and> c \<le> 0x39)"

definition digits_value :: "jsstring \<Rightarrow> int" where
  \<comment> \<open>the integer a sequence of decimal digits denotes\<close>
  "digits_value z = foldl (\<lambda>acc c. 10 * acc + (uint c - 48)) 0 z"

definition parseInt10 :: "jsstring \<Rightarrow> jsnum" where
  \<comment> \<open>\<open>parseInt(string, 10)\<close>: leading white space is skipped, one sign is read, then the
      longest run of decimal digits; \<open>NaN\<close> when that run is empty\<close>
  "parseInt10 inputString =
     (let S = trimStart inputString;
          sign = (if S \<noteq> [] \<and> hd S = of_char CHR ''-'' then - 1 else 1 :: int);
          S = (if S \<noteq> [] \<and> (hd S = of_char CHR ''+'' \<or> hd S = of_char CHR ''-'') then tl S else S);
          Z = takeWhile isDigit S
      in if Z = [] then NaN else fl (of_int (sign * digits_value Z)))"

definition isNaN :: "jsnum \<Rightarrow> bool" where
  "isNaN x = (x = NaN)"

section \<open>The remote store and the state of the component\<close>

text \<open>
  A Firestore document is a map from field names to values; a collection is the list of
  its documents with their ids; the store maps a collection path to the collection. The
  state holds the React state variables of \<open>App\<close> and, as \<open>remote\<close>, the content of the
  store the component talks to. The snapshot listener, which copies the collection into
  \<open>subjects\<close> sorted with \<open>localeCompare\<close>, is not part of the model.
\<close>

datatype fsvalue = VNum jsnum | VStr jsstring

type_synonym document = "jsstring \<rightharpoonup> fsvalue"

type_synonym firestore = "jsstring \<Rightarrow> (jsstring \<times> document) list"

record state =
  subjects :: "subject list"
  isLoading :: bool
  error :: "jsstring option"
  userId :: "jsstring option"
  db :: bool
  isModalOpen :: bool
  newSubjectName :: jsstring
  newSubjectType :: jsstring
  targetAdvicePercentage :: jsnum
  futureCommitments :: jsstring
  advice :: jsstring
  remote :: firestore

definition subjects_path :: "jsstring \<Rightarrow> jsstring" where
  "subjects_path uid = lit ''users/'' @ uid @ lit ''/subjects''"

definition addDoc :: "firestore \<Rightarrow> jsstring \<Rightarrow> jsstring \<Rightarrow> document \<Rightarrow> firestore" where
  \<comment> \<open>a new document under the id the store assigns\<close>
  "addDoc store path newid d = store(path := store path @ [(newid, d)])"

definition updateDoc :: "firestore \<Rightarrow> jsstring \<Rightarrow> jsstring \<Rightarrow> jsstring \<Rightarrow> fsvalue \<Rightarrow> firestore" where
  \<comment> \<open>one field of the document with that id is set, the others are kept\<close>
  "updateDoc store path docid field v =
     store(path := map (\<lambda>(i, d). if i = docid then (i, d(field \<mapsto> v)) else (i, d)) (store path))"

section \<open>Database operations\<close>

definition new_subject_doc :: "jsstring \<Rightarrow> jsstring \<Rightarrow> document" where
  \<comment> \<open>the object literal passed to \<open>addDoc\<close>\<close>
  "new_subject_doc n t =
     [lit ''name'' \<mapsto> VStr (trim n), lit ''type'' \<mapsto> VStr (trim t),
      lit ''conducted'' \<mapsto> VNum (Fin 0), lit ''present'' \<mapsto> VNum (Fin 0)]"

definition handleAddSubject :: "jsstring option \<Rightarrow> state \<Rightarrow> state" where
  \<comment> \<open>\<open>reply\<close> is the outcome of the awaited \<open>addDoc\<close>: the id the store assigned, or \<open>None\<close>
      when the call is rejected\<close>
  "handleAddSubject reply st =
     (case userId st of
        None \<Rightarrow> st
      | Some uid \<Rightarrow>
          if trim (newSubjectName st) = [] \<or> uid = [] \<or> \<not> db st then st
          else (case reply of
                  Some newid \<Rightarrow>
                    st\<lparr>remote := addDoc (remote st) (subjects_path uid) newid
                                  (new_subject_doc (newSubjectName st) (newSubjectType st)),
                       newSubjectName := [],
                       newSubjectType := lit ''Lecture'',
                       isModalOpen := False\<rparr>
                | None \<Rightarrow> st\<lparr>error := Some (lit ''Could not add subject.'')\<rparr>))"

definition handleUpdateSubject :: "bool \<Rightarrow> jsstring \<Rightarrow> jsstring \<Rightarrow> jsstring \<Rightarrow> state \<Rightarrow> state" where
  \<comment> \<open>\<open>reply\<close> tells whether the awaited \<open>updateDoc\<close> is accepted; the store rejects an
      update of a document it does not hold\<close>
  "handleUpdateSubject reply docid field val st =
     (case userId st of
        None \<Rightarrow> st
      | Some uid \<Rightarrow>
          if uid = [] \<or> \<not> db st then st
          else
            let numericValue = parseInt10 val in
            if isNaN numericValue \<or> js_lt numericValue (Fin 0) then st
            else if reply \<and> docid \<in> set (map fst (remote st (subjects_path uid)))
              then st\<lparr>remote := updateDoc (remote st) (subjects_path uid) docid field
                                   (VNum numericValue)\<rparr>
              else st\<lparr>error := Some (lit ''Could not update subject.'')\<rparr>)"

definition count_field_ok :: "fsvalue option \<Rightarrow> bool" where
  \<comment> \<open>a stored count is absent or a Number that is not negative (and not \<open>NaN\<close>)\<close>
  "count_field_ok v = (case v of None \<Rightarrow> True | Some (VNum x) \<Rightarrow> js_ge x (Fin 0)
     | Some (VStr _) \<Rightarrow> False)"

definition stored_counts_nonneg :: "(jsstring \<times> document) list \<Rightarrow> bool" where
  "stored_counts_nonneg docs =
     list_all (\<lambda>(i, d). count_field_ok (d (lit ''conducted'')) \<and> count_field_ok (d (lit ''present'')))
       docs"

section \<open>The advisor\<close>

definition percentage_report :: "jsnum \<Rightarrow> jsstring" where
  "percentage_report pct = lit ''Your current overall attendance is '' @ toFixed 2 pct @ lit ''%. ''"

definition congratulation :: "jsnum \<Rightarrow> jsstring" where
  "congratulation target = lit ''Great job! You'' @ [0x27] @ lit ''ve met your ''
     @ Number_toString target @ lit ''% target. Keep up the consistent effort.''"

definition classes_needed :: "jsnum \<Rightarrow> jsnum \<Rightarrow> jsstring" where
  "classes_needed target needed = lit ''To reach your '' @ Number_toString target
     @ lit ''% goal, you need to attend the next '' @ Number_toString needed
     @ lit '' classes without fail. ''"

definition commitment_warning :: "jsstring \<Rightarrow> jsstring" where
  "commitment_warning fc = [0xA] @ lit ''Remember to account for your upcoming commitment: ''
     @ [0x22] @ fc @ [0x22]
     @ lit ''. This might require extra focus on other classes to maintain your percentage.''"

definition generic_reminder :: jsstring where
  "generic_reminder = [0xA]
     @ lit ''Prioritize your upcoming classes and plan your schedule to avoid any unnecessary absences.''"

definition handleGetAdvice :: "state \<Rightarrow> state" where
  "handleGetAdvice st =
     (let sm = compute_summary (subjects st);
          needed = calculateProjection (totalPresent sm) (totalConducted sm)
                     (targetAdvicePercentage st);
          adviceMessage = percentage_report (overallPercentage sm);
          adviceMessage = adviceMessage @
            (if js_ge (overallPercentage sm) (targetAdvicePercentage st)
             then congratulation (targetAdvicePercentage st)
             else classes_needed (targetAdvicePercentage st) needed);
          adviceMessage = adviceMessage @
            (if trim (futureCommitments st) \<noteq> [] then commitment_warning (futureCommitments st)
             else generic_reminder)
      in st\<lparr>advice := adviceMessage\<rparr>)"


definition sample_subject :: subject where
  \<comment> \<open>30 classes attended out of 40\<close>
  "sample_subject = \<lparr>id' = lit ''a'', name = lit ''Physics'', type = lit ''Lecture'',
     conducted = Some (num 40), present = Some (num 30)\<rparr>"

definition sample_state :: state where
  \<comment> \<open>a signed-in user with the add-subject form filled in and one stored document\<close>
  "sample_state =
     \<lparr>subjects = [], isLoading = False, error = None, userId = Some (lit ''u1''), db = True,
      isModalOpen = True, newSubjectName = lit ''  Physics  '', newSubjectType = lit ''Lecture'',
      targetAdvicePercentage = Fin 75, futureCommitments = lit ''Doctor'', advice = [],
      remote = (\<lambda>_. [])(subjects_path (lit ''u1'') :=
                 [(lit ''a'', new_subject_doc (lit ''Maths'') (lit ''Lecture''))])\<rparr>"

definition huge_digits :: jsstring where
  \<comment> \<open>the digit 1 followed by 309 zeros\<close>
  "huge_digits = lit ''1'' @ replicate 309 (of_char CHR ''0'')"


definition excess_state :: state where
  \<comment> \<open>one subject with \<open>10^19\<close> classes attended out of 1 conducted\<close>
  "excess_state = sample_state\<lparr>subjects :=
     [\<lparr>id' = lit ''a'', name = lit ''Physics'', type = lit ''Lecture'',
        conducted = Some (num 1), present = Some (num 10000000000000000000)\<rparr>]\<rparr>"

definition echo_state :: state where
  \<comment> \<open>no subjects, and the congratulation for target 75 typed in as the commitments\<close>
  "echo_state = sample_state\<lparr>futureCommitments :=
     lit ''Great job! You'' @ [0x27] @ lit ''ve met your 75% target. Keep up the consistent effort.''\<rparr>"

declare dec_digits.simps [simp del]

section \<open>Rounding to binary64\<close>

lemma bitlen_powi_bounds:
  assumes "0 < (p::int)"
  shows "(2::rat) powi (bitlen p - 1) \<le> of_int p" "of_int p < (2::rat) powi bitlen p"
proof -
  from assms have b1: "1 \<le> bitlen p" by (simp add: bitlen_alt_def)
  from bitlen_bounds[OF assms] have lo: "2 ^ nat (bitlen p - 1) \<le> p" and hi: "p < 2 ^ nat (bitlen p)"
    by auto
  have "(of_int (2 ^ nat (bitlen p - 1)) :: rat) \<le> of_int p" using lo by (simp only: of_int_le_iff)
  then show "(2::rat) powi (bitlen p - 1) \<le> of_int p"
    using b1 by (simp add: power_int_nonneg_exp)
  have "(of_int p :: rat) < of_int (2 ^ nat (bitlen p))" using hi by (simp only: of_int_less_iff)
  then show "of_int p < (2::rat) powi bitlen p"
    using b1 by (simp add: power_int_nonneg_exp)
qed

lemma ilog2_bounds:
  assumes "0 < x"
  shows "2 powi ilog2 x \<le> x" "x < 2 powi (ilog2 x + 1)"
proof -
  obtain p q where pq: "quotient_of x = (p, q)" by (cases "quotient_of x")
  then have q: "0 < q" and x: "x = of_int p / of_int q"
    using quotient_of_denom_pos quotient_of_div by auto
  from assms x q have p: "0 < p" by (simp add: zero_less_divide_iff)
  define e where "e = bitlen p - bitlen q"
  have il: "ilog2 x = (if 2 powi e \<le> x then e else e - 1)"
    by (simp add: ilog2_def pq e_def Let_def)
  have qpos: "(0::rat) < of_int q" using q by simp
  have "x < 2 powi bitlen p / 2 powi (bitlen q - 1)"
    unfolding x using bitlen_powi_bounds[OF p] bitlen_powi_bounds[OF q] qpos p
    by (intro frac_less) auto
  also have "\<dots> = 2 powi (bitlen p - (bitlen q - 1))"
    by (rule power_int_diff[symmetric]) simp
  also have "bitlen p - (bitlen q - 1) = e + 1" by (simp add: e_def)
  finally have up: "x < 2 powi (e + 1)" .
  have "2 powi (bitlen p - 1) / 2 powi bitlen q < x"
    unfolding x using bitlen_powi_bounds[OF p] bitlen_powi_bounds[OF q] qpos
    by (intro frac_less2) (auto intro: less_imp_le)
  moreover have "2 powi (bitlen p - 1) / 2 powi bitlen q = (2::rat) powi (bitlen p - 1 - bitlen q)"
    by (rule power_int_diff[symmetric]) simp
  moreover have "bitlen p - 1 - bitlen q = e - 1" by (simp add: e_def)
  ultimately have lo: "2 powi (e - 1) < x" by simp
  show "2 powi ilog2 x \<le> x" using il lo by (auto intro: less_imp_le)
  show "x < 2 powi (ilog2 x + 1)" using il up by auto
qed

lemma powi2_less_cancel:
  assumes "(2::rat) powi a < 2 powi b" shows "a < b"
proof (rule ccontr)
  assume "\<not> a < b"
  then have "(2::rat) powi b \<le> 2 powi a" by (intro power_int_increasing) auto
  with assms show False by simp
qed

lemma ilog2_unique:
  assumes "0 < x" "2 powi e \<le> x" "x < 2 powi (e + 1)"
  shows "ilog2 x = e"
proof -
  have "(2::rat) powi e < 2 powi (ilog2 x + 1)"
    using assms(2) ilog2_bounds(2)[OF assms(1)] by (rule le_less_trans)
  then have "e < ilog2 x + 1" by (rule powi2_less_cancel)
  moreover have "(2::rat) powi ilog2 x < 2 powi (e + 1)"
    using ilog2_bounds(1)[OF assms(1)] assms(3) by (rule le_less_trans)
  then have "ilog2 x < e + 1" by (rule powi2_less_cancel)
  ultimately show ?thesis by simp
qed

lemma rne_unfold:
  "rne m = (if m - of_int \<lfloor>m\<rfloor> < 1 / 2 then \<lfloor>m\<rfloor>
            else if 1 / 2 < m - of_int \<lfloor>m\<rfloor> then \<lfloor>m\<rfloor> + 1
            else if even \<lfloor>m\<rfloor> then \<lfloor>m\<rfloor> else \<lfloor>m\<rfloor> + 1)"
  by (simp only: rne_def Let_def)

lemma rne_cases:
  obtains (down) "rne m = \<lfloor>m\<rfloor>" "m - of_int \<lfloor>m\<rfloor> \<le> 1 / 2"
        | (up) "rne m = \<lfloor>m\<rfloor> + 1" "1 / 2 \<le> m - of_int \<lfloor>m\<rfloor>"
proof (cases "m - of_int \<lfloor>m\<rfloor> < 1 / 2")
  case True
  then show ?thesis using down rne_unfold[of m] by simp
next
  case nlt: False
  show ?thesis
  proof (cases "1 / 2 < m - of_int \<lfloor>m\<rfloor>")
    case True
    then show ?thesis using up rne_unfold[of m] nlt by simp
  next
    case False
    with nlt have "m - of_int \<lfloor>m\<rfloor> = 1 / 2" by simp
    then show ?thesis using up down rne_unfold[of m] by (cases "even \<lfloor>m\<rfloor>") simp_all
  qed
qed

lemma rne_of_int [simp]: "rne (of_int k) = k"
  by (simp add: rne_def)

lemma rne_err: "\<bar>of_int (rne m) - m\<bar> \<le> 1 / 2"
proof (cases m rule: rne_cases)
  case down
  have "of_int \<lfloor>m\<rfloor> \<le> m" by simp
  with down show ?thesis by simp
next
  case up
  have "m < of_int \<lfloor>m\<rfloor> + 1" by linarith
  with up show ?thesis by simp
qed

lemma rne_near:
  assumes "\<bar>m - of_int k\<bar> < 1 / 2"
  shows "rne m = k"
proof -
  have "\<bar>of_int (rne m) - (of_int k :: rat)\<bar> < 1"
    using rne_err[of m] assms by linarith
  then have "\<bar>(of_int (rne m - k) :: rat)\<bar> < of_int 1" by simp
  then have "\<bar>rne m - k\<bar> < 1" by (simp only: of_int_abs[symmetric] of_int_less_iff)
  then show ?thesis by simp
qed

lemma rne_ge:
  assumes "of_int k \<le> m" shows "k \<le> rne m"
proof -
  from assms have "k \<le> \<lfloor>m\<rfloor>" by (simp add: le_floor_iff)
  then show ?thesis by (cases m rule: rne_cases) simp_all
qed

lemma rne_le:
  assumes "m \<le> of_int k" shows "rne m \<le> k"
proof (cases "m = of_int k")
  case True
  then show ?thesis by simp
next
  case False
  with assms have "m < of_int k" by simp
  then have "\<lfloor>m\<rfloor> < k" by (simp add: floor_less_iff)
  then show ?thesis by (cases m rule: rne_cases) simp_all
qed

lemma rne_mono:
  assumes "a \<le> b" shows "rne a \<le> rne b"
proof (cases "\<lfloor>a\<rfloor> = \<lfloor>b\<rfloor>")
  case True
  then show ?thesis using assms unfolding rne_def Let_def by (auto split: if_splits)
next
  case False
  with assms have "\<lfloor>a\<rfloor> < \<lfloor>b\<rfloor>" using floor_mono[OF assms] by simp
  then have "\<lfloor>a\<rfloor> + 1 \<le> \<lfloor>b\<rfloor>" by simp
  moreover have "rne a \<le> \<lfloor>a\<rfloor> + 1" by (cases a rule: rne_cases) simp_all
  moreover have "\<lfloor>b\<rfloor> \<le> rne b" by (cases b rule: rne_cases) simp_all
  ultimately show ?thesis by linarith
qed

lemma rne_neg: "rne (- m) = - rne m"
proof (cases "m = of_int \<lfloor>m\<rfloor>")
  case True
  then have "rne (- m) = rne (of_int (- \<lfloor>m\<rfloor>))" by simp
  also have "\<dots> = - \<lfloor>m\<rfloor>" by (rule rne_of_int)
  also have "\<dots> = - rne (of_int \<lfloor>m\<rfloor>)" by (simp only: rne_of_int)
  finally show ?thesis using True by simp
next
  case False
  define f where "f = \<lfloor>m\<rfloor>"
  define d where "d = m - of_int f"
  have "of_int f \<le> m" "m < of_int f + 1" unfolding f_def by linarith+
  moreover from False have "m \<noteq> of_int f" by (simp add: f_def)
  ultimately have d: "0 < d" "d < 1" unfolding d_def by linarith+
  have m: "m = of_int f + d" by (simp add: d_def)
  have fn: "\<lfloor>- m\<rfloor> = - f - 1"
    by (rule floor_unique) (use d in \<open>simp_all add: m\<close>)
  have dn: "- m - of_int (- f - 1) = 1 - d" by (simp add: m)
  have r1: "rne m = (if d < 1 / 2 then f else if 1 / 2 < d then f + 1
                     else if even f then f else f + 1)"
    using rne_unfold[of m] by (simp only: f_def[symmetric] d_def[symmetric])
  have r2: "rne (- m) = (if 1 - d < 1 / 2 then - f - 1 else if 1 / 2 < 1 - d then - f - 1 + 1
                     else if even (- f - 1) then - f - 1 else - f - 1 + 1)"
    using rne_unfold[of "- m"] by (simp only: fn dn)
  show ?thesis unfolding r1 r2 by auto
qed

lemma ilog2_mono:
  assumes "0 < x" "x \<le> y" shows "ilog2 x \<le> ilog2 y"
proof -
  from assms have y: "0 < y" by simp
  have "(2::rat) powi ilog2 x \<le> x" by (rule ilog2_bounds(1)[OF assms(1)])
  also note assms(2)
  also have "y < 2 powi (ilog2 y + 1)" by (rule ilog2_bounds(2)[OF y])
  finally have "ilog2 x < ilog2 y + 1" by (rule powi2_less_cancel)
  then show ?thesis by simp
qed

lemma ulp_exp_mono:
  assumes "0 < x" "x \<le> y" shows "ulp_exp x \<le> ulp_exp y"
  using ilog2_mono[of "\<bar>x\<bar>" "\<bar>y\<bar>"] assms by (simp add: ulp_exp_def)

lemma ulp_exp_minus [simp]: "ulp_exp (- x) = ulp_exp x"
  by (simp add: ulp_exp_def)

lemma round_binary64_minus: "round_binary64 (- x) = - round_binary64 x"
  by (simp add: round_binary64_def Let_def rne_neg)

lemma powi2_pos [simp]: "(0::rat) < 2 powi k"
  by simp

lemma round_binary64_le_grid:
  assumes "x \<le> of_int j * 2 powi ulp_exp x"
  shows "round_binary64 x \<le> of_int j * 2 powi ulp_exp x"
proof -
  have "x / 2 powi ulp_exp x \<le> of_int j"
    using assms by (simp add: pos_divide_le_eq)
  then have "rne (x / 2 powi ulp_exp x) \<le> j" by (rule rne_le)
  then have "(of_int (rne (x / 2 powi ulp_exp x)) :: rat) \<le> of_int j" by (simp only: of_int_le_iff)
  then show ?thesis
    by (simp add: round_binary64_def Let_def)
qed

lemma round_binary64_ge_grid:
  assumes "of_int j * 2 powi ulp_exp x \<le> x"
  shows "of_int j * 2 powi ulp_exp x \<le> round_binary64 x"
proof -
  have "of_int j \<le> x / 2 powi ulp_exp x"
    using assms by (simp add: pos_le_divide_eq)
  then have "j \<le> rne (x / 2 powi ulp_exp x)" by (rule rne_ge)
  then have "(of_int j :: rat) \<le> of_int (rne (x / 2 powi ulp_exp x))" by (simp only: of_int_le_iff)
  then show ?thesis
    by (simp add: round_binary64_def Let_def)
qed

lemma round_binary64_nonneg:
  assumes "0 \<le> x" shows "0 \<le> round_binary64 x"
  using round_binary64_ge_grid[of 0 x] assms by simp

lemma powi2_add_nat: "(2::rat) powi (k + int n) = of_int (2 ^ n) * 2 powi k"
proof -
  have "(2::rat) powi (k + int n) = 2 powi k * 2 powi int n" by (rule power_int_add) simp
  then show ?thesis by (simp add: mult.commute)
qed

lemma round_binary64_upper:
  assumes "0 < x"
  shows "round_binary64 x \<le> 2 powi (ulp_exp x + 53)"
proof -
  define e where "e = max (ilog2 x) (- 1022)"
  have ue: "e + 1 = ulp_exp x + int 53" using assms by (simp add: ulp_exp_def e_def)
  have "x < 2 powi (ilog2 x + 1)" by (rule ilog2_bounds(2)[OF assms])
  also have "\<dots> \<le> 2 powi (e + 1)" by (intro power_int_increasing) (simp_all add: e_def)
  finally have "x \<le> of_int (2 ^ 53) * 2 powi ulp_exp x"
    unfolding ue powi2_add_nat by simp
  then have "round_binary64 x \<le> of_int (2 ^ 53) * 2 powi ulp_exp x"
    by (rule round_binary64_le_grid)
  also have "\<dots> = 2 powi (ulp_exp x + int 53)" by (rule powi2_add_nat[symmetric])
  finally show ?thesis by simp
qed

lemma round_binary64_lower:
  assumes "0 < x" "- 1022 \<le> ilog2 x"
  shows "2 powi (ulp_exp x + 52) \<le> round_binary64 x"
proof -
  have ue: "ilog2 x = ulp_exp x + int 52" using assms by (simp add: ulp_exp_def)
  have "2 powi ilog2 x \<le> x" by (rule ilog2_bounds(1)[OF assms(1)])
  then have "of_int (2 ^ 52) * 2 powi ulp_exp x \<le> x"
    unfolding ue powi2_add_nat by simp
  then have "of_int (2 ^ 52) * 2 powi ulp_exp x \<le> round_binary64 x"
    by (rule round_binary64_ge_grid)
  moreover have "of_int (2 ^ 52) * 2 powi ulp_exp x = (2::rat) powi (ulp_exp x + int 52)"
    by (rule powi2_add_nat[symmetric])
  ultimately show ?thesis by simp
qed

lemma round_binary64_mono_pos:
  assumes "0 < x" "x \<le> y"
  shows "round_binary64 x \<le> round_binary64 y"
proof (cases "ulp_exp x = ulp_exp y")
  case True
  have "x / 2 powi ulp_exp y \<le> y / 2 powi ulp_exp y"
    using assms(2) by (simp add: divide_right_mono)
  then have "rne (x / 2 powi ulp_exp y) \<le> rne (y / 2 powi ulp_exp y)" by (rule rne_mono)
  then have "(of_int (rne (x / 2 powi ulp_exp y)) :: rat) \<le> of_int (rne (y / 2 powi ulp_exp y))"
    by (simp only: of_int_le_iff)
  then show ?thesis by (simp add: round_binary64_def Let_def True)
next
  case False
  from assms have y: "0 < y" by simp
  from False ulp_exp_mono[OF assms] have lt: "ulp_exp x < ulp_exp y" by simp
  then have "- 1022 \<le> ilog2 y" using y assms(1) by (simp add: ulp_exp_def max_def split: if_splits)
  then have "2 powi (ulp_exp y + 52) \<le> round_binary64 y" by (rule round_binary64_lower[OF y])
  moreover have "round_binary64 x \<le> 2 powi (ulp_exp x + 53)" by (rule round_binary64_upper[OF assms(1)])
  moreover have "(2::rat) powi (ulp_exp x + 53) \<le> 2 powi (ulp_exp y + 52)"
    using lt by (intro power_int_increasing) simp_all
  ultimately show ?thesis by linarith
qed

lemma rne_zero [simp]: "rne 0 = 0"
  using rne_of_int[of 0] by simp

lemma round_binary64_zero [simp]: "round_binary64 0 = 0"
  by (simp add: round_binary64_def)

lemma round_binary64_mono:
  assumes "x \<le> y"
  shows "round_binary64 x \<le> round_binary64 y"
proof -
  consider "0 < x" | "x \<le> 0" "0 \<le> y" | "y < 0" by linarith
  then show ?thesis
  proof cases
    case 1
    then show ?thesis using assms by (rule round_binary64_mono_pos)
  next
    case 2
    have "round_binary64 x = - round_binary64 (- x)" by (simp add: round_binary64_minus)
    moreover have "0 \<le> round_binary64 (- x)" using 2 by (intro round_binary64_nonneg) simp
    moreover have "0 \<le> round_binary64 y" using 2 by (intro round_binary64_nonneg)
    ultimately show ?thesis by linarith
  next
    case 3
    have "round_binary64 (- y) \<le> round_binary64 (- x)"
      using 3 assms by (intro round_binary64_mono_pos) simp_all
    then show ?thesis by (simp add: round_binary64_minus)
  qed
qed

lemma fl_alt:
  "fl x = (let r = round_binary64 x in
     if 2 ^ 1024 \<le> r then PInf else if r \<le> - (2 ^ 1024) then NInf else Fin r)"
  by (simp add: fl_def Let_def)

lemma fl_mono:
  assumes "x \<le> y" shows "js_le (fl x) (fl y)"
  using round_binary64_mono[OF assms] unfolding fl_alt Let_def by auto


lemma ulp_exp_normal:
  assumes "2 powi e \<le> \<bar>x\<bar>" "\<bar>x\<bar> < 2 powi (e + 1)" "- 1022 \<le> e"
  shows "ulp_exp x = e - 52"
proof -
  have "(0::rat) < 2 powi e" by simp
  with assms(1) have "0 < \<bar>x\<bar>" by linarith
  then have "ilog2 \<bar>x\<bar> = e" using assms(1,2) by (rule ilog2_unique)
  then show ?thesis using assms(3) by (simp add: ulp_exp_def)
qed

lemma ulp_exp_subnormal:
  assumes "x \<noteq> 0" "\<bar>x\<bar> < 2 powi (- 1022)"
  shows "ulp_exp x = - 1074"
proof -
  from assms(1) have pos: "0 < \<bar>x\<bar>" by simp
  have "(2::rat) powi ilog2 \<bar>x\<bar> \<le> \<bar>x\<bar>" by (rule ilog2_bounds(1)[OF pos])
  also note assms(2)
  finally have "ilog2 \<bar>x\<bar> < - 1022" by (rule powi2_less_cancel)
  then show ?thesis by (simp add: ulp_exp_def)
qed

lemma round_binary64_near:
  assumes "\<bar>x / 2 powi ulp_exp x - of_int m\<bar> < 1 / 2"
  shows "round_binary64 x = of_int m * 2 powi ulp_exp x"
  using rne_near[OF assms] by (simp add: round_binary64_def Let_def)

lemma round_binary64_abs: "\<bar>round_binary64 x\<bar> = round_binary64 \<bar>x\<bar>"
proof (cases "0 \<le> x")
  case True
  then show ?thesis using round_binary64_nonneg[of x] by simp
next
  case False
  then have "0 \<le> round_binary64 (- x)" by (intro round_binary64_nonneg) simp
  then show ?thesis using False by (simp add: round_binary64_minus abs_if)
qed

lemma ulp_exp_abs [simp]: "ulp_exp \<bar>x\<bar> = ulp_exp x"
  by (simp add: ulp_exp_def)

lemma round_binary64_bound:
  assumes "x \<noteq> 0"
  shows "\<bar>round_binary64 x\<bar> \<le> 2 powi (ulp_exp x + 53)"
  using round_binary64_upper[of "\<bar>x\<bar>"] assms by (simp add: round_binary64_abs)

lemma fl_finite:
  assumes "x \<noteq> 0" "ulp_exp x < 971"
  shows "fl x = Fin (round_binary64 x)"
proof -
  have "\<bar>round_binary64 x\<bar> \<le> 2 powi (ulp_exp x + 53)"
    by (rule round_binary64_bound[OF assms(1)])
  also have "\<dots> \<le> 2 powi 1023" using assms(2) by (intro power_int_increasing) simp_all
  also have "\<dots> < 2 ^ 1024" by simp
  finally have "\<bar>round_binary64 x\<bar> < 2 ^ 1024" .
  then show ?thesis unfolding fl_alt Let_def by (simp add: abs_less_iff)
qed

lemma fl_eval:
  assumes "2 powi e \<le> \<bar>x\<bar>" "\<bar>x\<bar> < 2 powi (e + 1)" "- 1022 \<le> e" "e < 1023"
    and "\<bar>x / 2 powi (e - 52) - of_int m\<bar> < 1 / 2"
  shows "fl x = Fin (of_int m * 2 powi (e - 52))"
proof -
  have ue: "ulp_exp x = e - 52" using assms(1-3) by (rule ulp_exp_normal)
  have "(0::rat) < 2 powi e" by simp
  with assms(1) have "0 < \<bar>x\<bar>" by linarith
  then have nz: "x \<noteq> 0" by simp
  have "fl x = Fin (round_binary64 x)" using nz assms(4) by (intro fl_finite) (simp_all add: ue)
  moreover have "round_binary64 x = of_int m * 2 powi ulp_exp x"
    using assms(5) by (intro round_binary64_near) (simp add: ue)
  ultimately show ?thesis by (simp add: ue)
qed

lemma round_binary64_grid:
  assumes "x = of_int j * 2 powi ulp_exp x"
  shows "round_binary64 x = x"
proof -
  have "x / 2 powi ulp_exp x = of_int j"
    using assms by (simp add: nonzero_divide_eq_eq)
  then show ?thesis using assms by (simp add: round_binary64_def Let_def)
qed

lemma powi2_scale_int:
  assumes "u \<le> k"
  shows "of_int m * (2::rat) powi k = of_int (m * 2 ^ nat (k - u)) * 2 powi u"
proof -
  have "(2::rat) powi k = 2 powi (u + int (nat (k - u)))" using assms by simp
  also have "\<dots> = of_int (2 ^ nat (k - u)) * 2 powi u" by (rule powi2_add_nat)
  finally show ?thesis by simp
qed

lemma round_binary64_exact:
  assumes x: "x = of_int m * 2 powi k" and m: "\<bar>m\<bar> \<le> 2 ^ 53" and k: "- 1074 \<le> k"
  shows "round_binary64 x = x"
proof (cases "x = 0")
  case True
  then show ?thesis by simp
next
  case False
  then have pos: "0 < \<bar>x\<bar>" by simp
  show ?thesis
  proof (cases "ulp_exp x \<le> k")
    case True
    have "of_int m * (2::rat) powi k = of_int (m * 2 ^ nat (k - ulp_exp x)) * 2 powi ulp_exp x"
      by (rule powi2_scale_int[OF True])
    with x have "x = of_int (m * 2 ^ nat (k - ulp_exp x)) * 2 powi ulp_exp x"
      by (rule trans)
    then show ?thesis by (rule round_binary64_grid)
  next
    case gt: False
    have absx: "\<bar>x\<bar> = of_int \<bar>m\<bar> * 2 powi k" by (simp add: x abs_mult)
    have "(of_int \<bar>m\<bar> :: rat) \<le> of_int (2 ^ 53)" using m by (simp only: of_int_le_iff)
    then have le: "\<bar>x\<bar> \<le> of_int (2 ^ 53) * 2 powi k"
      unfolding absx by (intro mult_right_mono) simp_all
    have "(2::rat) powi ilog2 \<bar>x\<bar> \<le> \<bar>x\<bar>" by (rule ilog2_bounds(1)[OF pos])
    also note le
    also have "of_int (2 ^ 53) * (2::rat) powi k = 2 powi (k + int 53)"
      by (rule powi2_add_nat[symmetric])
    also have "\<dots> < 2 powi (k + 54)" by (intro power_int_strict_increasing) simp_all
    finally have "ilog2 \<bar>x\<bar> < k + 54" by (rule powi2_less_cancel)
    with gt k have il: "ilog2 \<bar>x\<bar> = k + int 53" and ue: "ulp_exp x = k + int 1"
      by (simp_all add: ulp_exp_def max_def split: if_splits)
    have "of_int (2 ^ 53) * (2::rat) powi k \<le> \<bar>x\<bar>"
      using ilog2_bounds(1)[OF pos] unfolding il powi2_add_nat .
    with le have "\<bar>x\<bar> = of_int (2 ^ 53) * 2 powi k" by simp
    then have "(of_int \<bar>m\<bar> :: rat) = of_int (2 ^ 53)" unfolding absx by simp
    then have am: "\<bar>m\<bar> = 2 ^ 53" by (simp only: of_int_eq_iff)
    have two: "(2::rat) powi ulp_exp x = of_int 2 * 2 powi k"
      unfolding ue using powi2_add_nat[of k 1] by simp
    have "even \<bar>m\<bar>" unfolding am by simp
    then have "even m" by simp
    then have "m = 2 * (m div 2)" by simp
    then have "(of_int m :: rat) = of_int (m div 2) * of_int 2"
      by (metis mult.commute of_int_mult)
    then have "of_int m * (2::rat) powi k = of_int (m div 2) * (of_int 2 * 2 powi k)"
      by (simp only: mult.assoc)
    with x have x2: "x = of_int (m div 2) * (of_int 2 * 2 powi k)" by (rule trans)
    have "x = of_int (m div 2) * 2 powi ulp_exp x" by (subst two) (rule x2)
    then show ?thesis by (rule round_binary64_grid)
  qed
qed

lemma fl_exact:
  assumes x: "x = of_int m * 2 powi k" and m: "\<bar>m\<bar> \<le> 2 ^ 53" and k: "- 1074 \<le> k" "k \<le> 970"
  shows "fl x = Fin x"
proof -
  have r: "round_binary64 x = x" using x m k(1) by (rule round_binary64_exact)
  have absx: "\<bar>x\<bar> = of_int \<bar>m\<bar> * 2 powi k" by (simp add: x abs_mult)
  have "(of_int \<bar>m\<bar> :: rat) \<le> of_int (2 ^ 53)" using m by (simp only: of_int_le_iff)
  then have "\<bar>x\<bar> \<le> of_int (2 ^ 53) * 2 powi k"
    unfolding absx by (intro mult_right_mono) simp_all
  also have "of_int (2 ^ 53) * (2::rat) powi k = 2 powi (k + int 53)"
    by (rule powi2_add_nat[symmetric])
  also have "\<dots> \<le> 2 powi 1023" using k(2) by (intro power_int_increasing) simp_all
  also have "\<dots> < 2 ^ 1024" by simp
  finally have "\<bar>x\<bar> < 2 ^ 1024" .
  then show ?thesis unfolding fl_alt Let_def r by (simp add: abs_less_iff)
qed

lemma fl_int_exact:
  assumes "\<bar>n\<bar> \<le> 2 ^ 53"
  shows "fl (of_int n) = Fin (of_int n)"
  using fl_exact[of "of_int n" n 0] assms by simp

lemma fl_numeral:
  "numeral n \<le> (2 ^ 53 :: int) \<Longrightarrow> fl (numeral n) = Fin (numeral n)"
  using fl_int_exact[of "numeral n"] by simp

lemma fl_neg_numeral:
  "numeral n \<le> (2 ^ 53 :: int) \<Longrightarrow> fl (- numeral n) = Fin (- numeral n)"
  using fl_int_exact[of "- numeral n"] by simp

lemma fl_zero: "fl 0 = Fin 0"
  by (simp add: fl_def)

lemma fl_one: "fl 1 = Fin 1"
  using fl_int_exact[of 1] by simp

lemma fl_neg_one: "fl (- 1) = Fin (- 1)"
  using fl_int_exact[of "- 1"] by simp

lemmas fl_small = fl_numeral fl_neg_numeral fl_zero fl_one fl_neg_one

section \<open>Roundings met when the calculations run on concrete inputs\<close>

text \<open>
  Each value below is certified by \<open>fl_eval\<close>: the exponent and the significand are given,
  and the simplifier checks that the argument lies within half a unit of the last place.
\<close>

lemma fl_val_1: "fl (17 / 20) = Fin (7656119366529843 / 9007199254740992)"
  using fl_eval[of "- 1" "17 / 20" "7656119366529843"] by simp

lemma fl_val_2: "fl (11 / 14) = Fin (7077085128725065 / 9007199254740992)"
  using fl_eval[of "- 1" "11 / 14" "7077085128725065"] by simp

lemma fl_val_3: "fl (53592835565708901 / 4503599627370496) = Fin (6699104445713613 / 562949953421312)"
  using fl_eval[of "3" "53592835565708901 / 4503599627370496" "6699104445713613"] by simp

lemma fl_val_4: "fl (506654958079181 / 562949953421312) = Fin (506654958079181 / 562949953421312)"
  using fl_eval[of "- 1" "506654958079181 / 562949953421312" "8106479329266896"] by simp

lemma fl_val_5: "fl (1351079888211149 / 9007199254740992) = Fin (1351079888211149 / 9007199254740992)"
  using fl_eval[of "- 3" "1351079888211149 / 9007199254740992" "5404319552844596"] by simp

lemma fl_val_6: "fl (8106479329266896 / 1351079888211149) = Fin (3377699720527873 / 562949953421312)"
  using fl_eval[of "2" "8106479329266896 / 1351079888211149" "6755399441055746"] by simp

lemma fl_val_7: "\<lceil>3377699720527873 / 562949953421312 :: rat\<rceil> = 7"
  by (rule ceiling_unique) simp_all

lemma fl_val_8: "fl (3 / 4) = Fin (3 / 4)"
  using fl_eval[of "- 1" "3 / 4" "6755399441055744"] by simp

lemma fl_val_9: "fl (1 / 2) = Fin (1 / 2)"
  using fl_eval[of "- 1" "1 / 2" "4503599627370496"] by simp

lemma fl_val_10: "fl (1 / 4) = Fin (1 / 4)"
  using fl_eval[of "- 2" "1 / 4" "4503599627370496"] by simp

lemmas fl_vals = fl_val_1 fl_val_2 fl_val_3 fl_val_4 fl_val_5 fl_val_6 fl_val_7 fl_val_8 fl_val_9
  fl_val_10


lemmas projection_unfold = calculateProjection_def num_def js_gt_def js_ge_def js_sub_def Let_def

section \<open>Properties of the calculations\<close>

lemma js_lt_imp_le: "js_lt x y \<Longrightarrow> js_le x y"
  by (cases x; cases y) simp_all

text \<open>
  C3. \<open>calculateProjection\<close> never returns a negative value: whatever the three Numbers
  passed, the result compares \<open>\<ge> 0\<close> (so it is neither negative nor \<open>NaN\<close>). The result
  is either the literal \<open>0\<close> or a \<open>needed\<close> that passed the test \<open>needed > 0\<close>.
\<close>

theorem calculateProjection_nonneg:
  "js_ge (calculateProjection p c t) (Fin 0)"
  unfolding calculateProjection_def Let_def
  by (simp add: js_ge_def js_gt_def js_lt_imp_le)

text \<open>
  C1. The claim: for \<open>0 \<le> present \<le> conducted\<close> and \<open>0 \<le> target < 100\<close>,
  \<open>calculateProjection\<close> returns the least \<open>n \<ge> 0\<close> with
  \<open>(present + n) / (conducted + n) \<ge> target / 100\<close>. The two instances the claim
  names hold (20 at 10, 20, 75 and 0 at 0, 0, 75), but at present 11, conducted 14 and
  target 85 the code returns 7 although 6 further classes already give 17/20 = 85/100
  (and 5 do not), over the rationals and also when the comparison is evaluated on Numbers:
  \<open>85 / 100\<close> and \<open>1 - 0.85\<close> are rounded, and the quotient comes out as
  \<open>6.000000000000002\<close>, which \<open>Math.ceil\<close> takes to 7.
\<close>

theorem calculateProjection_not_minimal:
  "calculateProjection (num 11) (num 14) (num 85) = Fin 7
   \<and> meets_target 11 14 85 6 \<and> \<not> meets_target 11 14 85 5
   \<and> js_ge (js_div (num (11 + 6)) (num (14 + 6))) (js_div (num 85) (Fin 100))
   \<and> calculateProjection (num 10) (num 20) (num 75) = Fin 20
   \<and> calculateProjection (num 0) (num 0) (num 75) = Fin 0"
  by (simp add: projection_unfold meets_target_def fl_small fl_vals)









section \<open>Properties of the percentage\<close>

lemma round_binary64_err: "\<bar>round_binary64 x - x\<bar> \<le> 2 powi (ulp_exp x - 1)"
proof -
  define u :: rat where "u = 2 powi ulp_exp x"
  have u: "0 < u" by (simp add: u_def)
  have "round_binary64 x - x = (of_int (rne (x / u)) - x / u) * u"
    using u by (simp add: round_binary64_def Let_def u_def algebra_simps)
  then have "\<bar>round_binary64 x - x\<bar> = \<bar>of_int (rne (x / u)) - x / u\<bar> * u"
    using u by (simp add: abs_mult)
  also have "\<dots> \<le> 1 / 2 * u"
    using u rne_err[of "x / u"] by (intro mult_right_mono) simp_all
  also have "1 / 2 * u = 2 powi (ulp_exp x - 1)"
    unfolding u_def by (simp add: power_int_diff)
  finally show ?thesis .
qed

lemma ulp_exp_le:
  assumes "x \<noteq> 0" "\<bar>x\<bar> \<le> 2 powi k" "- 1022 \<le> k"
  shows "ulp_exp x \<le> k - 52"
proof -
  from assms(1) have pos: "0 < \<bar>x\<bar>" by simp
  have "(2::rat) powi ilog2 \<bar>x\<bar> \<le> \<bar>x\<bar>" by (rule ilog2_bounds(1)[OF pos])
  also note assms(2)
  also have "(2::rat) powi k < 2 powi (k + 1)" by (intro power_int_strict_increasing) simp_all
  finally have "ilog2 \<bar>x\<bar> < k + 1" by (rule powi2_less_cancel)
  then show ?thesis using assms(3) by (simp add: ulp_exp_def)
qed

lemma fl_bounded:
  assumes "\<bar>x\<bar> \<le> 2 powi k" "- 1022 \<le> k" "k \<le> 1022"
  shows "fl x = Fin (round_binary64 x)" "\<bar>round_binary64 x - x\<bar> \<le> 2 powi (k - 53)"
proof -
  show "fl x = Fin (round_binary64 x)"
  proof (cases "x = 0")
    case True
    then show ?thesis by (simp add: fl_def)
  next
    case False
    then show ?thesis using ulp_exp_le[OF False assms(1,2)] assms(3) by (intro fl_finite) simp_all
  qed
  show "\<bar>round_binary64 x - x\<bar> \<le> 2 powi (k - 53)"
  proof (cases "x = 0")
    case True
    then show ?thesis by simp
  next
    case False
    have "\<bar>round_binary64 x - x\<bar> \<le> 2 powi (ulp_exp x - 1)" by (rule round_binary64_err)
    also have "\<dots> \<le> 2 powi (k - 53)"
      using ulp_exp_le[OF False assms(1,2)] by (intro power_int_increasing) simp_all
    finally show ?thesis .
  qed
qed

lemma round_binary64_one: "round_binary64 1 = 1"
  using round_binary64_exact[of 1 1 0] by simp

lemma round_binary64_hundred: "round_binary64 100 = 100"
  using round_binary64_exact[of 100 100 0] by simp

lemma percentage_value:
  assumes "0 \<le> p" "p \<le> c" "0 < c"
  shows "\<exists>r. js_mul (js_div (num p) (num c)) (Fin 100) = Fin r \<and> 0 \<le> r \<and> r \<le> 100
     \<and> \<bar>r - 100 * of_int p / of_int c\<bar> \<le> 1 / 2 ^ 45"
proof -
  define q :: rat where "q = of_int p / of_int c"
  define q' where "q' = round_binary64 q"
  define y where "y = q' * 100"
  have cpos: "(0::rat) < of_int c" using assms(3) by simp
  have "(of_int p :: rat) \<le> of_int c" using assms(2) by (simp only: of_int_le_iff)
  then have q1: "q \<le> 1" unfolding q_def using cpos by (simp add: pos_divide_le_eq)
  have "(0::rat) \<le> of_int p" using assms(1) by simp
  then have q0: "0 \<le> q" unfolding q_def using cpos by simp
  have qa: "\<bar>q\<bar> \<le> 2 powi 0" using q0 q1 by simp
  have flq: "fl q = Fin q'" unfolding q'_def by (rule fl_bounded(1)[OF qa]) simp_all
  have eq: "\<bar>q' - q\<bar> \<le> 2 powi (0 - 53)" unfolding q'_def by (rule fl_bounded(2)[OF qa]) simp_all
  have q'0: "0 \<le> q'" unfolding q'_def using q0 by (rule round_binary64_nonneg)
  have q'1: "q' \<le> 1" unfolding q'_def using round_binary64_mono[OF q1] by (simp add: round_binary64_one)
  have y0: "0 \<le> y" and y1: "y \<le> 100" unfolding y_def using q'0 q'1 by simp_all
  have ya: "\<bar>y\<bar> \<le> 2 powi 7" using y0 y1 by simp
  have fly: "fl y = Fin (round_binary64 y)" by (rule fl_bounded(1)[OF ya]) simp_all
  have ey: "\<bar>round_binary64 y - y\<bar> \<le> 2 powi (7 - 53)" by (rule fl_bounded(2)[OF ya]) simp_all
  have r0: "0 \<le> round_binary64 y" using y0 by (rule round_binary64_nonneg)
  have r1: "round_binary64 y \<le> 100"
    using round_binary64_mono[OF y1] by (simp add: round_binary64_hundred)
  have "y - 100 * q = 100 * (q' - q)" by (simp add: y_def algebra_simps)
  then have "\<bar>y - 100 * q\<bar> = \<bar>100 * (q' - q)\<bar>" by (simp only:)
  also have "\<dots> = \<bar>100\<bar> * \<bar>q' - q\<bar>" by (rule abs_mult)
  also have "\<bar>100 :: rat\<bar> = 100" by simp
  finally have "\<bar>y - 100 * q\<bar> = 100 * \<bar>q' - q\<bar>" .
  moreover have "\<bar>round_binary64 y - 100 * q\<bar> \<le> \<bar>round_binary64 y - y\<bar> + \<bar>y - 100 * q\<bar>"
    by linarith
  ultimately have "\<bar>round_binary64 y - 100 * q\<bar> \<le> \<bar>round_binary64 y - y\<bar> + 100 * \<bar>q' - q\<bar>"
    by simp
  also have "\<dots> \<le> 2 powi (7 - 53) + 100 * 2 powi (0 - 53)"
    by (intro add_mono mult_left_mono ey eq) simp
  also have "\<dots> \<le> 1 / 2 ^ 45" by simp
  finally have err: "\<bar>round_binary64 y - 100 * of_int p / of_int c\<bar> \<le> 1 / 2 ^ 45"
    by (simp add: q_def)
  have "js_mul (js_div (num p) (num c)) (Fin 100) = Fin (round_binary64 y)"
    using assms(3) flq fly by (simp add: num_def q_def y_def)
  with r0 r1 err show ?thesis by blast
qed

text \<open>
  C4. For integers \<open>0 \<le> present \<le> conducted\<close>, \<open>calculatePercentage\<close> returns a finite
  Number in \<open>[0, 100]\<close>; when \<open>conducted\<close> is not zero it is the Number that
  \<open>(present / conducted) * 100\<close> evaluates to, which lies within \<open>2^-45\<close> of the exact
  quotient \<open>100 * present / conducted\<close>. With \<open>conducted = 0\<close> the result is 0 for every
  \<open>present\<close>: the guard \<open>!conducted\<close> returns before any division.
\<close>

theorem calculatePercentage_range:
  "(0 \<le> p \<and> p \<le> c \<longrightarrow>
      (\<exists>r. calculatePercentage (num p) (num c) = Fin r \<and> 0 \<le> r \<and> r \<le> 100
         \<and> \<bar>r - 100 * of_int p / of_int c\<bar> \<le> 1 / 2 ^ 45
         \<and> (c \<noteq> 0 \<longrightarrow> Fin r = js_mul (js_div (num p) (num c)) (Fin 100))))
   \<and> calculatePercentage (num p) (num 0) = Fin 0"
proof (intro conjI impI)
  show "calculatePercentage (num p) (num 0) = Fin 0"
    by (simp add: calculatePercentage_def num_def)
next
  assume a: "0 \<le> p \<and> p \<le> c"
  show "\<exists>r. calculatePercentage (num p) (num c) = Fin r \<and> 0 \<le> r \<and> r \<le> 100
         \<and> \<bar>r - 100 * of_int p / of_int c\<bar> \<le> 1 / 2 ^ 45
         \<and> (c \<noteq> 0 \<longrightarrow> Fin r = js_mul (js_div (num p) (num c)) (Fin 100))"
  proof (cases "c = 0")
    case True
    then show ?thesis by (simp add: calculatePercentage_def num_def)
  next
    case False
    with a have c: "0 < c" by simp
    from a have "0 \<le> p" "p \<le> c" by simp_all
    from percentage_value[OF this c] obtain r where
      r: "js_mul (js_div (num p) (num c)) (Fin 100) = Fin r" "0 \<le> r" "r \<le> 100"
         "\<bar>r - 100 * of_int p / of_int c\<bar> \<le> 1 / 2 ^ 45" by blast
    have "calculatePercentage (num p) (num c) = Fin r"
      using False r(1) by (simp add: calculatePercentage_def num_def)
    with r show ?thesis by simp
  qed
qed

theorem calculatePercentage_range_witness:
  "(0::int) \<le> 30 \<and> (30::int) \<le> 40 \<and> (40::int) \<noteq> 0
   \<and> calculatePercentage (num 30) (num 40) = Fin 75
   \<and> js_mul (js_div (num 30) (num 40)) (Fin 100) = Fin 75
   \<and> \<bar>(75::rat) - 100 * of_int 30 / of_int 40\<bar> \<le> 1 / 2 ^ 45
   \<and> calculatePercentage (num 30) (num 0) = Fin 0"
proof -
  from calculatePercentage_range[of 30 40] obtain r where
    r: "calculatePercentage (num 30) (num 40) = Fin r" "0 \<le> r" "r \<le> 100"
       "\<bar>r - 100 * of_int 30 / of_int 40\<bar> \<le> 1 / 2 ^ 45"
       "Fin r = js_mul (js_div (num 30) (num 40)) (Fin 100)"
    and z: "calculatePercentage (num 30) (num 0) = Fin 0" by auto
  have "js_mul (js_div (num 30) (num 40)) (Fin 100) = Fin 75"
    by (simp add: num_def fl_small fl_vals)
  with r z show ?thesis by simp
qed

section \<open>Properties of the summary\<close>









section \<open>Monotonicity of the projection\<close>

lemma calculateProjection_alt:
  "calculateProjection p c t =
     (if js_gt c (Fin 0) \<and> js_ge (js_div p c) (js_div t (Fin 100)) then Fin 0
      else clamp_needed (js_div (js_sub (js_mul (js_div t (Fin 100)) c) p)
                                (js_sub (Fin 1) (js_div t (Fin 100)))))"
  by (simp add: calculateProjection_def clamp_needed_def Let_def)

lemma js_le_refl: "x \<noteq> NaN \<Longrightarrow> js_le x x"
  by (cases x) simp_all

lemma js_le_NInf [simp]: "js_le NInf y \<longleftrightarrow> y \<noteq> NaN"
  by (cases y) simp_all

lemma js_le_PInf [simp]: "js_le x PInf \<longleftrightarrow> x \<noteq> NaN"
  by (cases x) simp_all

lemma js_le_trans: "js_le x y \<Longrightarrow> js_le y z \<Longrightarrow> js_le x z"
  by (cases x; cases y; cases z) simp_all

lemma clamp_needed_nonneg: "js_le (Fin 0) (clamp_needed q)"
  by (simp add: clamp_needed_def Let_def js_gt_def js_lt_imp_le)

lemma clamp_needed_mono:
  assumes "js_le x y" shows "js_le (clamp_needed x) (clamp_needed y)"
  using assms
  by (cases x; cases y) (auto simp: clamp_needed_def Let_def js_gt_def ceiling_mono dest: ceiling_mono)

lemma clamp_needed_nonpos:
  assumes "js_le x (Fin 0)" shows "clamp_needed x = Fin 0"
  using assms by (cases x) (auto simp: clamp_needed_def Let_def js_gt_def ceiling_le_zero)

lemma clamp_needed_NaN [simp]: "clamp_needed NaN = Fin 0"
  by (simp add: clamp_needed_def js_gt_def)

lemma fl_not_NaN [simp]: "fl x \<noteq> NaN"
  by (simp add: fl_alt Let_def)

lemma quotient_mono:
  assumes D: "js_le (Fin 0) D" and N: "js_le N2 N1"
  shows "js_le (clamp_needed (js_div N2 D)) (clamp_needed (js_div N1 D))"
proof (cases D)
  case NaN
  with D show ?thesis by simp
next
  case PInf
  have "clamp_needed (js_div N2 PInf) = Fin 0" by (cases N2) (simp_all add: clamp_needed_nonpos)
  then show ?thesis by (simp add: PInf clamp_needed_nonneg)
next
  case NInf
  with D show ?thesis by simp
next
  case (Fin d)
  with D have d: "0 \<le> d" by simp
  show ?thesis
  proof (cases "d = 0")
    case True
    show ?thesis using N unfolding Fin True
      by (cases N2; cases N1) (auto simp: sgn_inf_def clamp_needed_nonneg clamp_needed_nonpos js_le_refl clamp_needed_def js_gt_def)
  next
    case False
    with d have dpos: "0 < d" by simp
    have "js_le (js_div N2 (Fin d)) (js_div N1 (Fin d))"
      using N dpos by (cases N2; cases N1) (auto simp: fl_mono divide_right_mono js_le_refl)
    then show ?thesis unfolding Fin by (rule clamp_needed_mono)
  qed
qed

lemma js_sub_antimono:
  assumes "p1 \<le> p2" "A \<noteq> NaN"
  shows "js_le (js_sub A (Fin p2)) (js_sub A (Fin p1))"
  using assms by (cases A) (auto simp: js_sub_def fl_mono)

lemma target_decimal_le_one:
  assumes "t \<le> 100"
  shows "js_le (js_div (num t) (Fin 100)) (Fin 1)"
proof -
  have "(of_int t :: rat) \<le> of_int 100" using assms by (simp only: of_int_le_iff)
  then have "(of_int t :: rat) / 100 \<le> 1" by simp
  then have "js_le (fl (of_int t / 100)) (fl 1)" by (rule fl_mono)
  then show ?thesis by (simp add: num_def fl_one)
qed

lemma divisor_nonneg:
  assumes "js_le T (Fin 1)"
  shows "js_le (Fin 0) (js_sub (Fin 1) T)"
proof (cases T)
  case (Fin a)
  with assms have "0 \<le> 1 - a" by simp
  then have "js_le (fl 0) (fl (1 - a))" by (rule fl_mono)
  then show ?thesis by (simp add: Fin js_sub_def fl_zero)
qed (use assms in \<open>simp_all add: js_sub_def\<close>)

lemma needed_antimono:
  assumes "p1 \<le> p2" "js_le T (Fin 1)"
  shows "js_le (clamp_needed (js_div (js_sub (js_mul T C) (Fin p2)) (js_sub (Fin 1) T)))
               (clamp_needed (js_div (js_sub (js_mul T C) (Fin p1)) (js_sub (Fin 1) T)))"
proof (cases "js_mul T C = NaN")
  case True
  then show ?thesis by (simp add: js_sub_def)
next
  case False
  show ?thesis
    by (intro quotient_mono divisor_nonneg assms js_sub_antimono False)
qed

lemma branch_mono:
  assumes "p1 \<le> p2" "js_gt (Fin c) (Fin 0)" "js_ge (js_div (Fin p1) (Fin c)) T"
  shows "js_ge (js_div (Fin p2) (Fin c)) T"
proof -
  from assms(2) have c: "0 < c" by (simp add: js_gt_def)
  then have "p1 / c \<le> p2 / c" using assms(1) by (simp add: divide_right_mono)
  then have "js_le (fl (p1 / c)) (fl (p2 / c))" by (rule fl_mono)
  moreover have "js_le T (fl (p1 / c))" using assms(3) c by (simp add: js_ge_def)
  ultimately have "js_le T (fl (p2 / c))" by (rule js_le_trans[rotated])
  then show ?thesis using c by (simp add: js_ge_def)
qed

text \<open>
  C2, as claimed: for every conducted and every target, \<open>calculateProjection\<close> does not
  increase when present increases. This fails for a target above 100: there
  \<open>1 - target / 100\<close> is negative, and with no class conducted the quotient
  \<open>(0 - present) / (1 - 2)\<close> grows with present.
\<close>

theorem calculateProjection_monotone_counterexample:
  "(0::int) \<le> 5
   \<and> calculateProjection (num 0) (num 0) (num 200) = Fin 0
   \<and> calculateProjection (num 5) (num 0) (num 200) = Fin 5
   \<and> \<not> js_le (calculateProjection (num 5) (num 0) (num 200))
              (calculateProjection (num 0) (num 0) (num 200))"
  by (simp add: projection_unfold fl_small)

text \<open>
  C2, amended: for every conducted and every target of at most 100, and all integers
  \<open>p1 \<le> p2\<close>, \<open>calculateProjection p2 conducted target \<le> calculateProjection p1 conducted target\<close>.
  Rounding does not disturb this: every operation of the formula is monotone after rounding.
\<close>

theorem calculateProjection_antimono:
  assumes "p1 \<le> p2" "t \<le> 100"
  shows "js_le (calculateProjection (num p2) (num c) (num t))
               (calculateProjection (num p1) (num c) (num t))"
proof -
  define T where "T = js_div (num t) (Fin 100)"
  define C where "C = Fin (of_int c)"
  have T: "js_le T (Fin 1)" unfolding T_def using assms(2) by (rule target_decimal_le_one)
  have le: "(of_int p1 :: rat) \<le> of_int p2" using assms(1) by (simp only: of_int_le_iff)
  have alt: "calculateProjection (Fin p) C (num t) =
     (if js_gt C (Fin 0) \<and> js_ge (js_div (Fin p) C) T then Fin 0
      else clamp_needed (js_div (js_sub (js_mul T C) (Fin p)) (js_sub (Fin 1) T)))" for p
    unfolding T_def by (rule calculateProjection_alt)
  have "js_le (calculateProjection (Fin (of_int p2)) C (num t))
              (calculateProjection (Fin (of_int p1)) C (num t))"
  proof (cases "js_gt C (Fin 0) \<and> js_ge (js_div (Fin (of_int p2)) C) T")
    case True
    then have "calculateProjection (Fin (of_int p2)) C (num t) = Fin 0"
      unfolding alt by simp
    moreover have "js_le (Fin 0) (calculateProjection (Fin (of_int p1)) C (num t))"
      unfolding alt by (simp add: clamp_needed_nonneg)
    ultimately show ?thesis by simp
  next
    case False
    have n1: "\<not> (js_gt C (Fin 0) \<and> js_ge (js_div (Fin (of_int p1)) C) T)"
      using False branch_mono[OF le, of "of_int c" T] unfolding C_def by blast
    show ?thesis
      unfolding alt using needed_antimono[OF le T, of C] False n1 by auto
  qed
  then show ?thesis by (simp only: num_def C_def)
qed

theorem calculateProjection_antimono_witness:
  "(10::int) \<le> 15 \<and> (75::int) \<le> 100
   \<and> js_le (calculateProjection (num 15) (num 20) (num 75))
            (calculateProjection (num 10) (num 20) (num 75))"
  using calculateProjection_antimono[of 10 15 75 20] by simp

section \<open>The projection where nothing is rounded\<close>

text \<open>
  At target 75 the decimal \<open>0.75\<close> and \<open>1 - 0.75\<close> are binary fractions, and for counts up to
  \<open>2^50\<close> no operation of \<open>calculateProjection\<close> rounds: the result is
  \<open>max 0 (3 * conducted - 4 * present)\<close>, the least \<open>n \<ge> 0\<close> with
  \<open>75 * (conducted + n) \<le> 100 * (present + n)\<close>. The closed form is the right one; what
  goes wrong at target 85 is the rounding of \<open>85 / 100\<close>.
\<close>

lemma fl_quarters:
  assumes "\<bar>k\<bar> \<le> 2 ^ 53"
  shows "fl (of_int k / 4) = Fin (of_int k / 4)"
  using fl_exact[of "of_int k / 4" k "- 2"] assms by simp

lemma below_three_quarters:
  assumes "0 < c" "c \<le> 2 ^ 50" "4 * p < 3 * c"
  shows "\<not> js_ge (js_div (num p) (num c)) (Fin (3 / 4))"
proof -
  define g :: rat where "g = of_int (3 * 2 ^ 50 - 1) * 2 powi (- 52)"
  have cpos: "(0::rat) < of_int c" using assms(1) by simp
  have flg: "fl g = Fin g" unfolding g_def by (rule fl_exact[where m = "3 * 2 ^ 50 - 1" and k = "- 52"]) simp_all
  have g34: "g < 3 / 4" by (simp add: g_def)
  have "4 * p + 1 \<le> 3 * c" using assms(3) by simp
  then have "(of_int (4 * p + 1) :: rat) \<le> of_int (3 * c)" by (simp only: of_int_le_iff)
  then have a: "4 * (of_int p :: rat) + 1 \<le> 3 * of_int c" by simp
  have "(of_int c :: rat) \<le> of_int (2 ^ 50)" using assms(2) by (simp only: of_int_le_iff)
  then have b: "(of_int c :: rat) \<le> 2 ^ 50" by simp
  have "(of_int p :: rat) \<le> g * of_int c"
  proof -
    have "g * of_int c = 3 / 4 * of_int c - of_int c / 2 ^ 52" by (simp add: g_def algebra_simps)
    moreover have "(of_int c :: rat) / 2 ^ 52 \<le> 1 / 4" using b by simp
    ultimately show ?thesis using a by linarith
  qed
  then have "(of_int p :: rat) / of_int c \<le> g" using cpos by (simp add: pos_divide_le_eq)
  then have "js_le (fl (of_int p / of_int c)) (fl g)" by (rule fl_mono)
  then have "js_le (fl (of_int p / of_int c)) (Fin g)" by (simp only: flg)
  then have "\<not> js_le (Fin (3 / 4)) (fl (of_int p / of_int c))"
    using g34 by (cases "fl (of_int p / of_int c)") auto
  then show ?thesis using assms(1) by (simp add: js_ge_def num_def)
qed

lemma projection_exact_at_75:
  assumes "0 \<le> p" "p \<le> c" "c \<le> 2 ^ 50"
  shows "calculateProjection (num p) (num c) (num 75) = num (max 0 (3 * c - 4 * p))"
proof -
  have T: "js_div (num 75) (Fin 100) = Fin (3 / 4)" by (simp add: num_def fl_vals)
  have D: "js_sub (Fin 1) (Fin (3 / 4)) = Fin (1 / 4)" by (simp add: js_sub_def fl_vals)
  have c53: "\<bar>3 * c\<bar> \<le> 2 ^ 53" using assms by simp
  have A: "js_mul (Fin (3 / 4)) (num c) = Fin (of_int (3 * c) / 4)"
    using fl_quarters[OF c53] by (simp add: num_def)
  have d53: "\<bar>3 * c - 4 * p\<bar> \<le> 2 ^ 53" using assms by simp
  have N: "js_sub (Fin (of_int (3 * c) / 4)) (num p) = Fin (of_int (3 * c - 4 * p) / 4)"
    using fl_quarters[OF d53] by (simp add: num_def js_sub_def diff_divide_distrib)
  have Q: "js_div (Fin (of_int (3 * c - 4 * p) / 4)) (Fin (1 / 4)) = Fin (of_int (3 * c - 4 * p))"
    using fl_int_exact[OF d53] by (simp del: of_int_diff of_int_mult)
  have needed: "clamp_needed (js_div (js_sub (js_mul (Fin (3 / 4)) (num c)) (num p))
      (js_sub (Fin 1) (Fin (3 / 4)))) = num (max 0 (3 * c - 4 * p))"
    unfolding A N D Q by (simp add: clamp_needed_def js_gt_def num_def max_def)
  show ?thesis
  proof (cases "0 < c \<and> 3 * c \<le> 4 * p")
    case True
    then have cpos: "(0::rat) < of_int c" by simp
    from True have "(of_int (3 * c) :: rat) \<le> of_int (4 * p)" by (simp only: of_int_le_iff)
    then have "(3::rat) / 4 \<le> of_int p / of_int c" using cpos by (simp add: pos_le_divide_eq)
    then have "js_le (fl (3 / 4)) (fl (of_int p / of_int c))" by (rule fl_mono)
    then have "js_gt (num c) (Fin 0) \<and> js_ge (js_div (num p) (num c)) (Fin (3 / 4))"
      using True by (simp add: js_ge_def js_gt_def num_def fl_vals)
    then have "calculateProjection (num p) (num c) (num 75) = Fin 0"
      unfolding calculateProjection_alt T by simp
    then show ?thesis using True by (simp add: num_def max_def)
  next
    case False
    have "\<not> (js_gt (num c) (Fin 0) \<and> js_ge (js_div (num p) (num c)) (Fin (3 / 4)))"
    proof (cases "0 < c")
      case True
      with False have "4 * p < 3 * c" by simp
      from below_three_quarters[OF True assms(3) this] show ?thesis by simp
    next
      case False
      then show ?thesis by (simp add: js_gt_def num_def)
    qed
    then show ?thesis unfolding calculateProjection_alt T needed[symmetric] by auto
  qed
qed

lemma projection_least_at_75:
  assumes "0 \<le> p" "p \<le> c" "c \<le> 2 ^ 50"
  shows "\<exists>k. calculateProjection (num p) (num c) (num 75) = num k \<and> 0 \<le> k
     \<and> 75 * (c + k) \<le> 100 * (p + k)
     \<and> (\<forall>n. 0 \<le> n \<and> 75 * (c + n) \<le> 100 * (p + n) \<longrightarrow> k \<le> n)"
proof (intro exI conjI allI impI)
  show "calculateProjection (num p) (num c) (num 75) = num (max 0 (3 * c - 4 * p))"
    using assms by (rule projection_exact_at_75)
  show "0 \<le> max 0 (3 * c - 4 * p)" by simp
  show "75 * (c + max 0 (3 * c - 4 * p)) \<le> 100 * (p + max 0 (3 * c - 4 * p))"
    by (cases "0 \<le> 3 * c - 4 * p") (simp_all add: max_def)
  show "max 0 (3 * c - 4 * p) \<le> n" if "0 \<le> n \<and> 75 * (c + n) \<le> 100 * (p + n)" for n
    using that by (cases "0 \<le> 3 * c - 4 * p") (simp_all add: max_def)
qed

section \<open>Properties of the absent cells\<close>

lemma absent_cell_not_negative: "\<not> js_lt (absent_cell s) (Fin 0)"
  by (simp add: absent_cell_def Let_def)

text \<open>
  C9. The claim: with \<open>present > conducted\<close>, every displayed absent count, the per-subject
  cell and the overall cell, is clamped to zero. The per-subject cell is
  (\<open>absent_cell_not_negative\<close>); the overall cell is the bare difference of the totals.
  For one subject with conducted 3 and present 5 the table shows 0 in the subject's row
  and \<open>-2\<close> in the footer.
\<close>

theorem overall_absent_cell_not_clamped:
  "absent_cell \<lparr>id' = [], name = [], type = [], conducted = Some (num 3), present = Some (num 5)\<rparr>
     = Fin 0
   \<and> overall_absent_cell (compute_summary
        [\<lparr>id' = [], name = [], type = [], conducted = Some (num 3), present = Some (num 5)\<rparr>])
     = Fin (- 2)"
  by (simp add: absent_cell_def overall_absent_cell_def compute_summary_def or0_def ToNumber_def
      num_def js_sub_def Let_def fl_small)

section \<open>Properties of the database operations\<close>

lemma lit_name_distinct:
  "lit ''name'' \<noteq> lit ''type''" "lit ''name'' \<noteq> lit ''conducted''" "lit ''name'' \<noteq> lit ''present''"
  "lit ''type'' \<noteq> lit ''conducted''" "lit ''type'' \<noteq> lit ''present''"
  "lit ''conducted'' \<noteq> lit ''present''"
  by (simp_all add: lit_def)

lemma new_subject_doc_fields:
  "new_subject_doc n t (lit ''name'') = Some (VStr (trim n))"
  "new_subject_doc n t (lit ''type'') = Some (VStr (trim t))"
  "new_subject_doc n t (lit ''conducted'') = Some (VNum (Fin 0))"
  "new_subject_doc n t (lit ''present'') = Some (VNum (Fin 0))"
  using lit_name_distinct by (simp_all add: new_subject_doc_def)

lemma handleAddSubject_empty_name:
  assumes "trim (newSubjectName st) = []"
  shows "handleAddSubject reply st = st"
  using assms by (simp add: handleAddSubject_def split: option.splits)

lemma handleAddSubject_written:
  assumes "remote (handleAddSubject reply st) \<noteq> remote st"
  shows "\<exists>uid newid. userId st = Some uid \<and> uid \<noteq> [] \<and> db st \<and> reply = Some newid
     \<and> trim (newSubjectName st) \<noteq> []
     \<and> remote (handleAddSubject reply st)
         = addDoc (remote st) (subjects_path uid) newid
             (new_subject_doc (newSubjectName st) (newSubjectType st))"
  using assms by (auto simp: handleAddSubject_def split: option.splits if_splits)

lemma handleAddSubject_accepted:
  assumes "trim (newSubjectName st) \<noteq> []" "userId st = Some uid" "uid \<noteq> []" "db st"
  shows "remote (handleAddSubject (Some newid) st) (subjects_path uid)
     = remote st (subjects_path uid)
       @ [(newid, new_subject_doc (newSubjectName st) (newSubjectType st))]"
  using assms by (simp add: handleAddSubject_def addDoc_def)

text \<open>
  C7. Submitting the add-subject form: when the name is empty after trimming nothing
  happens at all; whenever the store changes, it is by one \<open>addDoc\<close> of the document whose
  name is the trimmed input and whose \<open>conducted\<close> and \<open>present\<close> are 0; and with a name that
  is not empty after trimming, a signed-in user and a store that accepts the call, that
  document is appended to the user's collection. \<open>"  Physics  "\<close> is stored as \<open>"Physics"\<close>.
\<close>

theorem handleAddSubject_record:
  "(trim (newSubjectName st) = [] \<longrightarrow> handleAddSubject reply st = st)
   \<and> (remote (handleAddSubject reply st) \<noteq> remote st \<longrightarrow>
        (\<exists>uid newid. userId st = Some uid \<and> reply = Some newid
           \<and> trim (newSubjectName st) \<noteq> []
           \<and> remote (handleAddSubject reply st)
               = addDoc (remote st) (subjects_path uid) newid
                   (new_subject_doc (newSubjectName st) (newSubjectType st))))
   \<and> (trim (newSubjectName st) \<noteq> [] \<and> userId st = Some uid \<and> uid \<noteq> [] \<and> db st \<longrightarrow>
        remote (handleAddSubject (Some newid) st) (subjects_path uid)
          = remote st (subjects_path uid)
            @ [(newid, new_subject_doc (newSubjectName st) (newSubjectType st))])
   \<and> new_subject_doc n t (lit ''name'') = Some (VStr (trim n))
   \<and> new_subject_doc n t (lit ''conducted'') = Some (VNum (Fin 0))
   \<and> new_subject_doc n t (lit ''present'') = Some (VNum (Fin 0))"
  using handleAddSubject_empty_name[of st reply] handleAddSubject_written[of reply st]
    handleAddSubject_accepted[of st uid newid] new_subject_doc_fields[of n t]
  by blast

lemma trim_physics: "trim (lit ''  Physics  '') = lit ''Physics''"
  by (simp add: trim_def trimStart_def trimEnd_def lit_def isWhiteSpace_def)

lemma trim_spaces: "trim (lit ''   '') = []"
  by (simp add: trim_def trimStart_def trimEnd_def lit_def isWhiteSpace_def)

theorem handleAddSubject_record_witness:
  "trim (newSubjectName sample_state) \<noteq> [] \<and> userId sample_state = Some (lit ''u1'')
   \<and> lit ''u1'' \<noteq> [] \<and> db sample_state
   \<and> remote (handleAddSubject (Some (lit ''b'')) sample_state) (subjects_path (lit ''u1''))
       = [(lit ''a'', new_subject_doc (lit ''Maths'') (lit ''Lecture'')),
          (lit ''b'', new_subject_doc (lit ''  Physics  '') (lit ''Lecture''))]
   \<and> new_subject_doc (lit ''  Physics  '') (lit ''Lecture'') (lit ''name'') = Some (VStr (lit ''Physics''))
   \<and> new_subject_doc (lit ''  Physics  '') (lit ''Lecture'') (lit ''conducted'') = Some (VNum (Fin 0))
   \<and> new_subject_doc (lit ''  Physics  '') (lit ''Lecture'') (lit ''present'') = Some (VNum (Fin 0))
   \<and> trim (newSubjectName (sample_state\<lparr>newSubjectName := lit ''   ''\<rparr>)) = []
   \<and> handleAddSubject (Some (lit ''b'')) (sample_state\<lparr>newSubjectName := lit ''   ''\<rparr>)
       = sample_state\<lparr>newSubjectName := lit ''   ''\<rparr>"
proof -
  have h1: "trim (newSubjectName sample_state) \<noteq> []"
    by (simp add: sample_state_def trim_physics) (simp add: lit_def)
  have h2: "userId sample_state = Some (lit ''u1'')" "lit ''u1'' \<noteq> []" "db sample_state"
    by (simp_all add: sample_state_def lit_def)
  have h3: "trim (newSubjectName (sample_state\<lparr>newSubjectName := lit ''   ''\<rparr>)) = []"
    by (simp add: trim_spaces)
  note A = handleAddSubject_record[of sample_state "Some (lit ''b'')" "lit ''u1''" "lit ''b''"
      "lit ''  Physics  ''" "lit ''Lecture''"]
  note B = handleAddSubject_record[of "sample_state\<lparr>newSubjectName := lit ''   ''\<rparr>"
      "Some (lit ''b'')" "lit ''u1''" "lit ''b''" "lit ''  Physics  ''" "lit ''Lecture''"]
  from A h1 h2 have w: "remote (handleAddSubject (Some (lit ''b'')) sample_state) (subjects_path (lit ''u1''))
          = remote sample_state (subjects_path (lit ''u1''))
            @ [(lit ''b'', new_subject_doc (newSubjectName sample_state) (newSubjectType sample_state))]"
    by blast
  have w': "remote (handleAddSubject (Some (lit ''b'')) sample_state) (subjects_path (lit ''u1''))
       = [(lit ''a'', new_subject_doc (lit ''Maths'') (lit ''Lecture'')),
          (lit ''b'', new_subject_doc (lit ''  Physics  '') (lit ''Lecture''))]"
    unfolding w by (simp add: sample_state_def)
  from A have f: "new_subject_doc (lit ''  Physics  '') (lit ''Lecture'') (lit ''name'') = Some (VStr (trim (lit ''  Physics  '')))"
    "new_subject_doc (lit ''  Physics  '') (lit ''Lecture'') (lit ''conducted'') = Some (VNum (Fin 0))"
    "new_subject_doc (lit ''  Physics  '') (lit ''Lecture'') (lit ''present'') = Some (VNum (Fin 0))"
    by blast+
  from B h3 have e: "handleAddSubject (Some (lit ''b'')) (sample_state\<lparr>newSubjectName := lit ''   ''\<rparr>)
       = sample_state\<lparr>newSubjectName := lit ''   ''\<rparr>" by blast
  show ?thesis using h1 h2 h3 w' f e by (simp add: trim_physics)
qed

lemma round_binary64_of_int: "\<exists>j. round_binary64 (of_int k) = of_int j"
proof (cases "\<bar>k\<bar> \<le> 2 ^ 53")
  case True
  have "round_binary64 (of_int k) = of_int k"
    using round_binary64_exact[of "of_int k" k 0] True by simp
  then show ?thesis by blast
next
  case False
  then have "2 ^ 53 \<le> \<bar>k\<bar>" by simp
  then have "(of_int (2 ^ 53) :: rat) \<le> of_int \<bar>k\<bar>" by (simp only: of_int_le_iff)
  then have big: "(2::rat) powi 53 \<le> \<bar>of_int k\<bar>" by simp
  then have pos: "(0::rat) < \<bar>of_int k\<bar>" by (rule less_le_trans[rotated]) simp
  have "(2::rat) powi 53 < 2 powi (ilog2 \<bar>of_int k\<bar> + 1)"
    using big ilog2_bounds(2)[OF pos] by (rule le_less_trans)
  then have "53 < ilog2 \<bar>of_int k :: rat\<bar> + 1" by (rule powi2_less_cancel)
  then have ue: "0 \<le> ulp_exp (of_int k)" by (simp add: ulp_exp_def)
  have "(2::rat) powi ulp_exp (of_int k) = of_int (2 ^ nat (ulp_exp (of_int k)))"
    using ue by (simp add: power_int_nonneg_exp)
  then have "round_binary64 (of_int k)
      = of_int (rne (of_int k / 2 powi ulp_exp (of_int k)) * 2 ^ nat (ulp_exp (of_int k)))"
    by (simp add: round_binary64_def Let_def)
  then show ?thesis by blast
qed

lemma fl_of_int_cases:
  "fl (of_int k) = PInf \<or> fl (of_int k) = NInf \<or> (\<exists>j. fl (of_int k) = Fin (of_int j))"
proof -
  obtain j where "round_binary64 (of_int k) = of_int j" using round_binary64_of_int by blast
  then show ?thesis unfolding fl_alt Let_def by auto
qed

lemma fl_neg_of_int_ex: "\<exists>k. fl (- of_int d) = fl (of_int k)"
  by (rule exI[of _ "- d"]) simp

lemma parseInt10_cases:
  "parseInt10 v = NaN \<or> (\<exists>k. parseInt10 v = fl (of_int k))"
  unfolding parseInt10_def Let_def using fl_neg_of_int_ex by (auto split: if_splits)

lemma parseInt10_accepted:
  assumes "\<not> isNaN (parseInt10 v)" "\<not> js_lt (parseInt10 v) (Fin 0)"
  shows "is_nonneg_integer (parseInt10 v) \<or> parseInt10 v = PInf"
proof -
  from assms(1) parseInt10_cases[of v] obtain k where k: "parseInt10 v = fl (of_int k)"
    by (auto simp: isNaN_def)
  from fl_of_int_cases[of k] show ?thesis
  proof (elim disjE exE)
    assume "fl (of_int k) = PInf"
    then show ?thesis by (simp add: k)
  next
    assume "fl (of_int k) = NInf"
    with assms(2) show ?thesis by (simp add: k)
  next
    fix j assume j: "fl (of_int k) = Fin (of_int j)"
    with assms(2) have "\<not> (of_int j :: rat) < 0" by (simp add: k)
    then show ?thesis by (simp add: k j is_nonneg_integer_def)
  qed
qed

lemma accepted_nonneg:
  assumes "\<not> isNaN x" "\<not> js_lt x (Fin 0)"
  shows "js_ge x (Fin 0)"
  using assms by (cases x) (simp_all add: isNaN_def js_ge_def)

lemma handleUpdateSubject_rejected:
  assumes "isNaN (parseInt10 val) \<or> js_lt (parseInt10 val) (Fin 0)"
  shows "handleUpdateSubject reply docid field val st = st"
  using assms by (auto simp: handleUpdateSubject_def Let_def split: option.splits)

lemma handleUpdateSubject_written:
  assumes "remote (handleUpdateSubject reply docid field val st) \<noteq> remote st"
  shows "\<exists>uid. userId st = Some uid
     \<and> remote (handleUpdateSubject reply docid field val st)
         = updateDoc (remote st) (subjects_path uid) docid field (VNum (parseInt10 val))
     \<and> \<not> isNaN (parseInt10 val) \<and> \<not> js_lt (parseInt10 val) (Fin 0)"
  using assms by (auto simp: handleUpdateSubject_def Let_def split: option.splits if_splits)

lemma count_field_ok_upd:
  assumes "count_field_ok (d k)" "js_ge x (Fin 0)"
  shows "count_field_ok ((d(field \<mapsto> VNum x)) k)"
  using assms by (simp add: count_field_ok_def)

lemma updateDoc_counts:
  assumes "stored_counts_nonneg (store path)" "js_ge x (Fin 0)"
  shows "stored_counts_nonneg (updateDoc store upath docid field (VNum x) path)"
proof (cases "path = upath")
  case False
  with assms(1) show ?thesis by (simp add: updateDoc_def)
next
  case True
  define f :: "jsstring \<times> document \<Rightarrow> jsstring \<times> document"
    where "f = (\<lambda>(i, d). if i = docid then (i, d(field \<mapsto> VNum x)) else (i, d))"
  define P :: "jsstring \<times> document \<Rightarrow> bool"
    where "P = (\<lambda>(i, d). count_field_ok (d (lit ''conducted'')) \<and> count_field_ok (d (lit ''present'')))"
  have step: "P (f e)" if "P e" for e
    using that assms(2) by (cases e) (auto simp: f_def P_def count_field_ok_def)
  have "list_all P (store upath)"
    using assms(1) by (simp add: True stored_counts_nonneg_def P_def)
  then have "list_all P (map f (store upath))"
    by (simp add: list_all_iff step)
  then show ?thesis
    by (simp add: True stored_counts_nonneg_def updateDoc_def P_def f_def)
qed

lemma addDoc_counts:
  assumes "stored_counts_nonneg (store path)"
  shows "stored_counts_nonneg (addDoc store apath newid (new_subject_doc n t) path)"
  using assms
  by (auto simp: stored_counts_nonneg_def addDoc_def list_all_iff count_field_ok_def
      new_subject_doc_fields js_ge_def)

lemma handleUpdateSubject_counts:
  assumes "stored_counts_nonneg (remote st path)"
  shows "stored_counts_nonneg (remote (handleUpdateSubject reply docid field val st) path)"
proof (cases "remote (handleUpdateSubject reply docid field val st) = remote st")
  case True
  with assms show ?thesis by simp
next
  case False
  from handleUpdateSubject_written[OF False] obtain uid where
    w: "remote (handleUpdateSubject reply docid field val st)
         = updateDoc (remote st) (subjects_path uid) docid field (VNum (parseInt10 val))"
    and ok: "\<not> isNaN (parseInt10 val)" "\<not> js_lt (parseInt10 val) (Fin 0)" by blast
  show ?thesis unfolding w using assms accepted_nonneg[OF ok] by (rule updateDoc_counts)
qed

lemma handleAddSubject_counts:
  assumes "stored_counts_nonneg (remote st path)"
  shows "stored_counts_nonneg (remote (handleAddSubject reply st) path)"
proof (cases "remote (handleAddSubject reply st) = remote st")
  case True
  with assms show ?thesis by simp
next
  case False
  from handleAddSubject_written[OF False] obtain uid newid where
    w: "remote (handleAddSubject reply st)
         = addDoc (remote st) (subjects_path uid) newid
             (new_subject_doc (newSubjectName st) (newSubjectType st))" by blast
  show ?thesis unfolding w using assms by (rule addDoc_counts)
qed

lemma lit_eq_Nil [simp]: "lit s = [] \<longleftrightarrow> s = []"
  by (simp add: lit_def)

lemma fl_overflow:
  assumes "2 ^ 1024 \<le> x" shows "fl x = PInf"
proof -
  have "round_binary64 (2 ^ 1024) = 2 ^ 1024"
    by (rule round_binary64_exact[of _ "2 ^ 53" 971]) simp_all
  with round_binary64_mono[OF assms] have "2 ^ 1024 \<le> round_binary64 x" by simp
  then show ?thesis by (simp add: fl_alt Let_def)
qed

lemma digits_zeros:
  "foldl (\<lambda>acc c. 10 * acc + (uint (c :: 16 word) - 48)) a (replicate n 48) = a * 10 ^ n"
  by (induction n arbitrary: a) simp_all

lemma parseInt10_minus_five: "parseInt10 (lit ''-5'') = Fin (- 5)"
  by (simp add: parseInt10_def trimStart_def lit_def isWhiteSpace_def isDigit_def
      digits_value_def fl_small)

lemma parseInt10_forty_two: "parseInt10 (lit ''42'') = Fin 42"
  by (simp add: parseInt10_def trimStart_def lit_def isWhiteSpace_def isDigit_def
      digits_value_def fl_small)

lemma parseInt10_abc: "parseInt10 (lit ''abc'') = NaN"
  by (simp add: parseInt10_def trimStart_def lit_def isWhiteSpace_def isDigit_def)

lemma parseInt10_huge: "parseInt10 huge_digits = PInf"
proof -
  have "(2::rat) ^ 1024 \<le> 10 ^ 309" by simp
  then have "fl (10 ^ 309) = PInf" by (rule fl_overflow)
  then show ?thesis
    by (simp add: huge_digits_def parseInt10_def trimStart_def lit_def isWhiteSpace_def isDigit_def
      digits_value_def digits_zeros)
qed

lemma sample_doc_present:
  "(new_subject_doc (lit ''Maths'') (lit ''Lecture'')) (lit ''present'') = Some (VNum (Fin 0))"
  by (rule new_subject_doc_fields)

lemma sample_remote:
  "remote sample_state (subjects_path (lit ''u1''))
     = [(lit ''a'', new_subject_doc (lit ''Maths'') (lit ''Lecture''))]"
  by (simp add: sample_state_def)

lemma sample_update_42:
  "remote (handleUpdateSubject True (lit ''a'') (lit ''present'') (lit ''42'') sample_state)
       (subjects_path (lit ''u1''))
     = [(lit ''a'', (new_subject_doc (lit ''Maths'') (lit ''Lecture''))
                        (lit ''present'' \<mapsto> VNum (Fin 42)))]"
  by (simp add: parseInt10_forty_two handleUpdateSubject_def sample_state_def
      isNaN_def updateDoc_def)

text \<open>
  What the guard of \<open>handleUpdateSubject\<close> does ensure. The operation leaves the whole
  state as it is when the input parses to \<open>NaN\<close> or to a negative value; when it changes the store, it is by one \<open>updateDoc\<close> with the parsed
  value, a non-negative integer or \<open>+Infinity\<close>; \<open>handleAddSubject\<close> writes 0 to both
  counts; so both operations keep every stored count non-negative.
\<close>

lemma handleUpdateSubject_guard:
  "(isNaN (parseInt10 val) \<or> js_lt (parseInt10 val) (Fin 0) \<longrightarrow>
      handleUpdateSubject reply docid field val st = st)
   \<and> (remote (handleUpdateSubject reply docid field val st) \<noteq> remote st \<longrightarrow>
        (\<exists>uid. userId st = Some uid
           \<and> remote (handleUpdateSubject reply docid field val st)
               = updateDoc (remote st) (subjects_path uid) docid field (VNum (parseInt10 val))
           \<and> (is_nonneg_integer (parseInt10 val) \<or> parseInt10 val = PInf)))
   \<and> new_subject_doc n t (lit ''conducted'') = Some (VNum (Fin 0))
   \<and> new_subject_doc n t (lit ''present'') = Some (VNum (Fin 0))
   \<and> (stored_counts_nonneg (remote st path) \<longrightarrow>
        stored_counts_nonneg (remote (handleUpdateSubject reply docid field val st) path)
        \<and> stored_counts_nonneg (remote (handleAddSubject areply st) path))"
proof (intro conjI impI)
  assume "remote (handleUpdateSubject reply docid field val st) \<noteq> remote st"
  from handleUpdateSubject_written[OF this] parseInt10_accepted[of val]
  show "\<exists>uid. userId st = Some uid
           \<and> remote (handleUpdateSubject reply docid field val st)
               = updateDoc (remote st) (subjects_path uid) docid field (VNum (parseInt10 val))
           \<and> (is_nonneg_integer (parseInt10 val) \<or> parseInt10 val = PInf)"
    by blast
qed (simp_all add: handleUpdateSubject_rejected new_subject_doc_fields
      handleUpdateSubject_counts handleAddSubject_counts)

lemma handleUpdateSubject_guard_example:
  "js_lt (parseInt10 (lit ''-5'')) (Fin 0)
   \<and> handleUpdateSubject True (lit ''a'') (lit ''present'') (lit ''-5'') sample_state = sample_state
   \<and> isNaN (parseInt10 (lit ''abc''))
   \<and> handleUpdateSubject True (lit ''a'') (lit ''present'') (lit ''abc'') sample_state = sample_state
   \<and> remote (handleUpdateSubject True (lit ''a'') (lit ''present'') (lit ''42'') sample_state)
       \<noteq> remote sample_state
   \<and> parseInt10 (lit ''42'') = Fin 42
   \<and> is_nonneg_integer (parseInt10 (lit ''42''))
   \<and> stored_counts_nonneg (remote sample_state (subjects_path (lit ''u1'')))
   \<and> stored_counts_nonneg
        (remote (handleUpdateSubject True (lit ''a'') (lit ''present'') (lit ''42'') sample_state)
           (subjects_path (lit ''u1'')))
   \<and> stored_counts_nonneg
        (remote (handleAddSubject (Some (lit ''b'')) sample_state) (subjects_path (lit ''u1'')))"
proof -
  have h1: "js_lt (parseInt10 (lit ''-5'')) (Fin 0)" by (simp add: parseInt10_minus_five)
  have h2: "isNaN (parseInt10 (lit ''abc''))" by (simp add: parseInt10_abc isNaN_def)
  have h3: "remote (handleUpdateSubject True (lit ''a'') (lit ''present'') (lit ''42'') sample_state)
       \<noteq> remote sample_state"
  proof
    assume "remote (handleUpdateSubject True (lit ''a'') (lit ''present'') (lit ''42'') sample_state)
       = remote sample_state"
    then have "remote (handleUpdateSubject True (lit ''a'') (lit ''present'') (lit ''42'') sample_state)
       (subjects_path (lit ''u1'')) = remote sample_state (subjects_path (lit ''u1''))"
      by simp
    then have "(new_subject_doc (lit ''Maths'') (lit ''Lecture''))(lit ''present'' \<mapsto> VNum (Fin 42))
       = new_subject_doc (lit ''Maths'') (lit ''Lecture'')"
      unfolding sample_update_42 sample_remote by simp
    then have "((new_subject_doc (lit ''Maths'') (lit ''Lecture''))(lit ''present'' \<mapsto> VNum (Fin 42)))
         (lit ''present'') = (new_subject_doc (lit ''Maths'') (lit ''Lecture'')) (lit ''present'')"
      by simp
    then show False unfolding sample_doc_present by simp
  qed
  have h4: "stored_counts_nonneg (remote sample_state (subjects_path (lit ''u1'')))"
    by (simp add: sample_remote stored_counts_nonneg_def count_field_ok_def
        new_subject_doc_fields js_ge_def)
  note W1 = handleUpdateSubject_guard[of "lit ''-5''" True "lit ''a''" "lit ''present''" sample_state]
  note W2 = handleUpdateSubject_guard[of "lit ''abc''" True "lit ''a''" "lit ''present''" sample_state]
  note W3 = handleUpdateSubject_guard[of "lit ''42''" True "lit ''a''" "lit ''present''" sample_state
      "lit ''Maths''" "lit ''Lecture''" "subjects_path (lit ''u1'')" "Some (lit ''b'')"]
  from W1 h1 have r1: "handleUpdateSubject True (lit ''a'') (lit ''present'') (lit ''-5'') sample_state
      = sample_state" by blast
  from W2 h2 have r2: "handleUpdateSubject True (lit ''a'') (lit ''present'') (lit ''abc'') sample_state
      = sample_state" by blast
  from W3 h3 have "is_nonneg_integer (parseInt10 (lit ''42'')) \<or> parseInt10 (lit ''42'') = PInf"
    by blast
  then have r3: "is_nonneg_integer (parseInt10 (lit ''42''))" by (simp add: parseInt10_forty_two)
  from W3 h4 have r4: "stored_counts_nonneg
        (remote (handleUpdateSubject True (lit ''a'') (lit ''present'') (lit ''42'') sample_state)
           (subjects_path (lit ''u1'')))"
    "stored_counts_nonneg
        (remote (handleAddSubject (Some (lit ''b'')) sample_state) (subjects_path (lit ''u1'')))"
    by blast+
  show ?thesis using h1 h2 h3 h4 r1 r2 r3 r4 parseInt10_forty_two by simp
qed

text \<open>
  C10. Every write the application issues to a \<open>conducted\<close> or \<open>present\<close> field is a
  non-negative integer. The guard \<open>isNaN(numericValue) || numericValue < 0\<close> turns away
  an input that does not parse and one that parses to a negative value, but \<open>parseInt\<close> of
  a digit string whose value is \<open>2^1024\<close> or more is \<open>Infinity\<close>, which is neither \<open>NaN\<close>
  nor negative: the guard lets it through and \<open>updateDoc\<close> writes it, a value that is not
  an integer.
\<close>

theorem handleUpdateSubject_writes_infinity:
  "parseInt10 huge_digits = PInf
   \<and> \<not> isNaN PInf \<and> \<not> js_lt PInf (Fin 0)
   \<and> \<not> is_nonneg_integer PInf
   \<and> remote (handleUpdateSubject True (lit ''a'') (lit ''conducted'') huge_digits sample_state)
       (subjects_path (lit ''u1''))
       = [(lit ''a'', (new_subject_doc (lit ''Maths'') (lit ''Lecture''))
                        (lit ''conducted'' \<mapsto> VNum PInf))]
   \<and> handleUpdateSubject True (lit ''a'') (lit ''conducted'') (lit ''-5'') sample_state = sample_state
   \<and> handleUpdateSubject True (lit ''a'') (lit ''conducted'') (lit ''abc'') sample_state = sample_state"
  by (simp add: parseInt10_huge parseInt10_minus_five parseInt10_abc is_nonneg_integer_def
      handleUpdateSubject_def sample_state_def isNaN_def updateDoc_def)

section \<open>Properties of the advisor\<close>

lemma digit_word:
  assumes "d < 10"
  shows "isDigit (of_nat (48 + d))" "uint (of_nat (48 + d) :: 16 word) = 48 + int d"
proof -
  have "unat (of_nat (48 + d) :: 16 word) = (48 + d) mod 2 ^ LENGTH(16)"
    by (rule unat_of_nat)
  also have "\<dots> = 48 + d" using assms by simp
  finally have u: "unat (of_nat (48 + d) :: 16 word) = 48 + d" .
  show "uint (of_nat (48 + d) :: 16 word) = 48 + int d"
    using u by (simp add: uint_nat)
  show "isDigit (of_nat (48 + d))"
    unfolding isDigit_def word_le_nat_alt u using assms by simp
qed

lemma digits_value_snoc:
  "digits_value (xs @ [c]) = 10 * digits_value xs + (uint c - 48)"
  by (simp add: digits_value_def)

lemma dec_digits_props:
  "dec_digits n \<noteq> [] \<and> list_all isDigit (dec_digits n) \<and> digits_value (dec_digits n) = int n"
proof (induction n rule: dec_digits.induct)
  case (1 n)
  show ?case
  proof (cases "n < 10")
    case True
    then show ?thesis
      using digit_word[OF True] by (subst (1 2 3) dec_digits.simps) (simp add: digits_value_def)
  next
    case False
    have d: "n mod 10 < 10" by simp
    have "10 * (n div 10) + n mod 10 = n" by simp
    then have "int (10 * (n div 10) + n mod 10) = int n" by (rule arg_cong)
    then have split: "10 * int (n div 10) + int (n mod 10) = int n"
      by (simp only: of_nat_add of_nat_mult of_nat_numeral)
    from 1[OF False] show ?thesis
      using False digit_word[OF d] split
      by (subst (1 2 3) dec_digits.simps) (simp add: digits_value_snoc)
  qed
qed

lemma digits_value_zeros_prefix:
  "digits_value (replicate k 48 @ xs) = digits_value xs"
  by (simp add: digits_value_def digits_zeros)

lemma isDigit_zero: "isDigit 48"
  by (simp add: isDigit_def)

lemma toFixed_2_unfold:
  assumes "\<bar>r\<bar> < 10 ^ 21"
  shows "toFixed 2 (Fin r) =
    (let m0 = dec_digits (nat \<lfloor>\<bar>r\<bar> * 100 + 1 / 2\<rfloor>);
         m = (if length m0 \<le> 2 then replicate (3 - length m0) 48 @ m0 else m0)
     in (if r < 0 then lit ''-'' else []) @ take (length m - 2) m @ lit ''.'' @ drop (length m - 2) m)"
proof -
  have a: "\<not> 10 ^ 21 \<le> \<bar>r\<bar>" using assms by simp
  have b: "(2::nat) \<noteq> 0" "(2::nat) + 1 - k = 3 - k" "(of_char CHR ''0'' :: 16 word) = 48"
    "(10::rat) ^ 2 = 100" for k
    by simp_all
  show ?thesis
    unfolding toFixed_def Let_def jsnum.case
    by (simp only: a b if_False)
qed

lemma toFixed_two_decimals:
  assumes "\<bar>r\<bar> < 10 ^ 21"
  shows "\<exists>ip fp. toFixed 2 (Fin r) = (if r < 0 then lit ''-'' else []) @ ip @ lit ''.'' @ fp
     \<and> ip \<noteq> [] \<and> length fp = 2 \<and> list_all isDigit (ip @ fp)
     \<and> digits_value (ip @ fp) = \<lfloor>\<bar>r\<bar> * 100 + 1 / 2\<rfloor>"
proof -
  define n where "n = \<lfloor>\<bar>r\<bar> * 100 + 1 / 2\<rfloor>"
  define m0 where "m0 = dec_digits (nat n)"
  define m where "m = (if length m0 \<le> 2 then replicate (3 - length m0) 48 @ m0 else m0)"
  have n0: "0 \<le> n" unfolding n_def by simp
  have m0: "m0 \<noteq> []" "list_all isDigit m0" "digits_value m0 = n"
    using dec_digits_props[of "nat n"] n0 by (simp_all add: m0_def)
  have len: "3 \<le> length m" by (simp add: m_def)
  have dig: "list_all isDigit m" using m0(2) by (simp add: m_def isDigit_zero list_all_iff)
  have val: "digits_value m = n" using m0(3) by (simp add: m_def digits_value_zeros_prefix)
  define ip where "ip = take (length m - 2) m"
  define fp where "fp = drop (length m - 2) m"
  have split: "ip @ fp = m" by (simp add: ip_def fp_def)
  have "toFixed 2 (Fin r) = (if r < 0 then lit ''-'' else []) @ ip @ lit ''.'' @ fp"
    unfolding toFixed_2_unfold[OF assms] Let_def ip_def fp_def m_def m0_def n_def ..
  moreover have "length ip = length m - 2" by (simp add: ip_def)
  with len have "length ip \<noteq> 0" by simp
  then have "ip \<noteq> []" by simp
  moreover note this
  moreover have "length fp = 2" using len by (simp add: fp_def)
  ultimately show ?thesis using dig val unfolding split[symmetric] n_def by blast
qed

lemma congratulation_not_prefix:
  "\<not> prefix (congratulation t) (classes_needed t n @ z)"
  by (simp add: congratulation_def classes_needed_def lit_def)

lemma advice_message:
  "advice (handleGetAdvice st) =
     percentage_report (overallPercentage (compute_summary (subjects st)))
     @ (if js_ge (overallPercentage (compute_summary (subjects st))) (targetAdvicePercentage st)
        then congratulation (targetAdvicePercentage st)
        else classes_needed (targetAdvicePercentage st)
               (calculateProjection (totalPresent (compute_summary (subjects st)))
                  (totalConducted (compute_summary (subjects st))) (targetAdvicePercentage st)))
     @ (if trim (futureCommitments st) \<noteq> [] then commitment_warning (futureCommitments st)
        else generic_reminder)"
  by (simp add: handleGetAdvice_def Let_def)

lemma dec_digits_0: "dec_digits 0 = [48]"
  by (subst dec_digits.simps) simp

lemma toFixed_zero: "toFixed 2 (Fin 0) = lit ''0.00''"
  by (simp add: toFixed_2_unfold Let_def dec_digits_0 lit_def)

lemma floor_rat_numeral_div [simp]:
  "\<lfloor>(numeral a :: rat) / numeral b\<rfloor> = numeral a div numeral b"
  using floor_divide_of_int_eq[of "numeral a" "numeral b", where ?'a = rat] by simp

lemma dec_digits_numeral:
  "dec_digits (numeral k) = (if numeral k < (10::nat) then [of_nat (48 + numeral k)]
     else dec_digits (numeral k div 10) @ [of_nat (48 + numeral k mod 10)])"
  by (rule dec_digits.simps)

lemma toFixed_75: "toFixed 2 (Fin 75) = lit ''75.00''"
  by (simp add: toFixed_2_unfold Let_def dec_digits_numeral dec_digits_0 lit_def)

lemma floorlog_numeral:
  "floorlog 10 (numeral k) = floorlog 10 (numeral k div 10) + 1"
  by (subst compute_floorlog) simp

lemma floorlog_small: "floorlog 10 0 = 0" "floorlog 10 1 = 1" "floorlog 10 (Suc 0) = 1"
  by (simp_all add: compute_floorlog)

lemma ilog10_75: "ilog10 75 = 1"
  by (simp add: ilog10_def floorlog_numeral floorlog_small)

lemma decimal_candidates_75_1: "decimal_candidates 75 (Suc 0) = []"
  by (simp add: decimal_candidates_def ilog10_75 Let_def fl_small)

lemma decimal_candidates_75_2: "decimal_candidates 75 2 = [(75, 2)]"
  by (simp add: decimal_candidates_def ilog10_75 Let_def fl_small)

lemma upt_1_18: "[Suc 0..<18] = Suc 0 # 2 # [3..<18]"
proof -
  have "[Suc 0..<18] = Suc 0 # [Suc (Suc 0)..<18]" by (rule upt_conv_Cons) simp
  also have "[Suc (Suc 0)..<18] = Suc (Suc 0) # [Suc (Suc (Suc 0))..<18]"
    by (rule upt_conv_Cons) simp
  finally show ?thesis by (simp add: numeral_2_eq_2 numeral_3_eq_3)
qed

lemma shortest_digits_75: "shortest_digits 75 (Suc 0 # 2 # ks) = (75, 2, 2)"
  by (simp add: decimal_candidates_75_1 decimal_candidates_75_2)

lemma Number_toString_75: "Number_toString (Fin 75) = lit ''75''"
  by (simp add: Number_toString_def upt_1_18 decimal_candidates_75_1 decimal_candidates_75_2
      format_decimal_def dec_digits_numeral lit_def)

lemma floor_half: "\<lfloor>1 / 2 :: rat\<rfloor> = 0"
  by (rule floor_unique) simp_all

lemma Number_toString_zero: "Number_toString (Fin 0) = lit ''0''"
  by (simp add: Number_toString_def)

lemma sample_summary: "compute_summary (subjects sample_state)
    = \<lparr>totalConducted = Fin 0, totalPresent = Fin 0, overallPercentage = Fin 0\<rparr>"
  by (simp add: sample_state_def compute_summary_def calculatePercentage_def Let_def)

lemma sample_projection: "calculateProjection (Fin 0) (Fin 0) (Fin 75) = Fin 0"
  by (simp add: projection_unfold fl_small fl_vals)

lemma met_summary: "compute_summary ([sample_subject])
    = \<lparr>totalConducted = Fin 40, totalPresent = Fin 30, overallPercentage = Fin 75\<rparr>"
  by (simp add: sample_subject_def compute_summary_def calculatePercentage_def Let_def
      or0_def num_def fl_small fl_vals)

lemma sublist_skip:
  assumes "g \<notin> set A" "sublist (g # cs) (A @ ys)"
  shows "sublist (g # cs) ys"
  using assms by (induction A) (auto simp: sublist_Cons_right)

lemma sublist_split:
  assumes "q \<notin> set xs" "sublist xs (ys @ q # zs)"
  shows "sublist xs ys \<or> sublist xs zs"
proof -
  from assms(2) consider "sublist xs ys" | "sublist xs (q # zs)"
    | xs1 xs2 where "xs = xs1 @ xs2" "suffix xs1 ys" "prefix xs2 (q # zs)"
    unfolding sublist_append by blast
  then show ?thesis
  proof cases
    case 1
    then show ?thesis by simp
  next
    case 2
    then have "prefix xs (q # zs) \<or> sublist xs zs" by (simp add: sublist_Cons_right)
    then show ?thesis
    proof
      assume "prefix xs (q # zs)"
      with assms(1) have "xs = []" by (cases xs) auto
      then show ?thesis by simp
    qed simp
  next
    case 3
    from 3(3) assms(1) 3(1) have "xs2 = []" by (cases xs2) auto
    with 3(1,2) show ?thesis by auto
  qed
qed

lemma dec_digits_set: "c \<in> set (dec_digits n) \<Longrightarrow> isDigit c"
  using dec_digits_props[of n] by (simp add: list_all_iff)

lemma format_decimal_chars:
  assumes "c \<in> set (format_decimal t)"
  shows "isDigit c \<or> c \<in> set (lit ''.e-+'')"
proof -
  obtain s k n where t: "t = (s, k, n)" by (cases t)
  have d: "isDigit x" if "x \<in> set (dec_digits m)" for x m using that by (rule dec_digits_set)
  have z: "isDigit 48" by (simp add: isDigit_def)
  show ?thesis
    using assms unfolding t format_decimal_def Let_def
    by (auto simp: lit_def z dest!: in_set_takeD in_set_dropD d split: if_splits)
qed

lemma Number_toString_chars:
  assumes "c \<in> set (Number_toString x)"
  shows "isDigit c \<or> c \<in> set (lit ''.e-+NaInfity'')"
proof (cases x)
  case (Fin r)
  have z: "isDigit 48" by (simp add: isDigit_def)
  have f: "isDigit c \<or> c \<in> set (lit ''.e-+NaInfity'')" if "c \<in> set (format_decimal t)" for t
    using format_decimal_chars[OF that] by (auto simp: lit_def)
  consider "r = 0" | "r < 0" | "0 < r" by linarith
  then show ?thesis
  proof cases
    case 1
    with assms show ?thesis unfolding Fin Number_toString_def by (simp add: lit_def z)
  next
    case 2
    with assms have "c = 45 \<or> c \<in> set (format_decimal (shortest_digits (- r) [1..<18]))"
      unfolding Fin Number_toString_def by (simp add: lit_def)
    then show ?thesis
    proof
      assume "c = 45" then show ?thesis by (simp add: lit_def)
    next
      assume "c \<in> set (format_decimal (shortest_digits (- r) [1..<18]))"
      then show ?thesis by (rule f)
    qed
  next
    case 3
    with assms have "c \<in> set (format_decimal (shortest_digits r [1..<18]))"
      unfolding Fin Number_toString_def by simp
    then show ?thesis by (rule f)
  qed
qed (use assms in \<open>auto simp: Number_toString_def lit_def\<close>)

lemma toFixed_chars:
  assumes "c \<in> set (toFixed 2 x)"
  shows "isDigit c \<or> c \<in> set (lit ''.e-+NaInfity'')"
proof (cases x)
  case (Fin r)
  show ?thesis
  proof (cases "\<bar>r\<bar> < 10 ^ 21")
    case True
    have z: "isDigit 48" by (simp add: isDigit_def)
    have d: "isDigit x" if "x \<in> set (dec_digits m)" for x m using that by (rule dec_digits_set)
    from assms show ?thesis
      unfolding Fin toFixed_2_unfold[OF True] Let_def
      by (auto simp: lit_def z dest!: in_set_takeD in_set_dropD d split: if_splits)
  next
    case False
    then have "10 ^ 21 \<le> \<bar>r\<bar>" by simp
    then have "toFixed 2 (Fin r) = (if r < 0 then lit ''-'' else []) @ Number_toString (Fin \<bar>r\<bar>)"
      by (simp add: toFixed_def Let_def)
    with assms Number_toString_chars[of c "Fin \<bar>r\<bar>"] show ?thesis
      unfolding Fin by (auto simp: lit_def split: if_splits)
  qed
qed (use assms Number_toString_chars[of c x] in \<open>auto simp: toFixed_def\<close>)

lemma not_number_char:
  "\<not> isDigit 0x47" "0x47 \<notin> set (lit ''.e-+NaInfity'')"
  "\<not> isDigit 0x22" "0x22 \<notin> set (lit ''.e-+NaInfity'')"
  by (simp_all add: isDigit_def lit_def)

lemma no_G_quote:
  "0x47 \<notin> set (Number_toString x)" "0x22 \<notin> set (Number_toString x)"
  "0x47 \<notin> set (toFixed 2 x)"
  using Number_toString_chars[of _ x] toFixed_chars[of _ x] not_number_char by blast+

lemma fl_e19: "fl 10000000000000000000 = Fin 10000000000000000000"
  by (rule fl_exact[of _ 4882812500000000 11]) simp_all

lemma fl_e21: "fl 1000000000000000000000 = Fin 1000000000000000000000"
  by (rule fl_exact[of _ 7629394531250000 17]) simp_all

lemma fl_2e21: "fl 2000000000000000000000 = Fin 2000000000000000000000"
  by (rule fl_exact[of _ 7629394531250000 18]) simp_all

lemma fl_e22: "fl 10000000000000000000000 = Fin 10000000000000000000000"
  by (rule fl_exact[of _ 4768371582031250 21]) simp_all

lemma excess_summary: "compute_summary (subjects excess_state)
    = \<lparr>totalConducted = Fin 1, totalPresent = Fin 10000000000000000000,
       overallPercentage = Fin 1000000000000000000000\<rparr>"
  by (simp add: excess_state_def sample_state_def compute_summary_def calculatePercentage_def
      Let_def or0_def num_def fl_small fl_e19 fl_e21)

lemma floor_tenth: "\<lfloor>1 / 10 :: rat\<rfloor> = 0"
  by (rule floor_unique) simp_all

lemma dec_digits_1: "dec_digits (Suc 0) = [49]"
  by (subst dec_digits.simps) simp

lemma ilog10_e21: "ilog10 1000000000000000000000 = 21"
  by (simp add: ilog10_def floorlog_numeral floorlog_small)

lemma decimal_candidates_e21:
  "decimal_candidates 1000000000000000000000 (Suc 0) = [(1, 22)]"
  by (simp add: decimal_candidates_def ilog10_e21 Let_def fl_e21 fl_2e21 fl_e22 floor_tenth)

lemma Number_toString_e21: "Number_toString (Fin 1000000000000000000000) = lit ''1e+21''"
  by (simp add: Number_toString_def upt_1_18 decimal_candidates_e21
      format_decimal_def dec_digits_numeral dec_digits_1 lit_def)

lemma toFixed_e21: "toFixed 2 (Fin 1000000000000000000000) = lit ''1e+21''"
  by (simp add: toFixed_def Number_toString_e21)

lemma echo_summary: "compute_summary (subjects echo_state)
    = \<lparr>totalConducted = Fin 0, totalPresent = Fin 0, overallPercentage = Fin 0\<rparr>"
  by (simp add: echo_state_def sample_state_def compute_summary_def calculatePercentage_def Let_def)

text \<open>
  C6, as claimed: the message always begins with the percentage to two decimal places, and
  it contains the congratulation exactly when \<open>overallPercentage \<ge> targetPercentage\<close>.
  \<open>toFixed(2)\<close> of a Number of magnitude \<open>10^21\<close> or more is its exponent notation: with
  \<open>10^19\<close> classes attended out of 1 the message begins \<open>\<dots> is 1e+21%\<close>. And the
  commitments are echoed unchanged: when they are the congratulation itself, the message
  contains it although the percentage 0 is below the target 75.
\<close>

theorem handleGetAdvice_message_counterexample:
  "overallPercentage (compute_summary (subjects excess_state)) = Fin 1000000000000000000000
   \<and> prefix (lit ''Your current overall attendance is 1e+21%. '')
        (advice (handleGetAdvice excess_state))
   \<and> \<not> js_ge (overallPercentage (compute_summary (subjects echo_state)))
          (targetAdvicePercentage echo_state)
   \<and> sublist (lit ''Great job! You'' @ [0x27]
          @ lit ''ve met your 75% target. Keep up the consistent effort.'')
        (advice (handleGetAdvice echo_state))"
proof -
  have a: "prefix (lit ''Your current overall attendance is 1e+21%. '')
        (advice (handleGetAdvice excess_state))"
    unfolding advice_message excess_summary
    by (simp add: percentage_report_def toFixed_e21 lit_def)
  have t: "targetAdvicePercentage echo_state = Fin 75"
    by (simp add: echo_state_def sample_state_def)
  have f: "futureCommitments echo_state = lit ''Great job! You'' @ [0x27]
          @ lit ''ve met your 75% target. Keep up the consistent effort.''"
    by (simp add: echo_state_def)
  have n: "trim (lit ''Great job! You'' @ [0x27]
          @ lit ''ve met your 75% target. Keep up the consistent effort.'') \<noteq> []"
    by (simp add: trim_def trimStart_def trimEnd_def lit_def isWhiteSpace_def)
  have b: "\<not> js_ge (overallPercentage (compute_summary (subjects echo_state)))
          (targetAdvicePercentage echo_state)"
    by (simp add: echo_summary t js_ge_def)
  have w: "sublist fc (commitment_warning fc)" for fc
    unfolding commitment_warning_def sublist_def
    by (intro exI[of _ "[0xA] @ lit ''Remember to account for your upcoming commitment: '' @ [0x22]"]
          exI[of _ "[0x22] @ lit ''. This might require extra focus on other classes to maintain your percentage.''"])
       (simp only: append_assoc)
  have r: "sublist xs (ys @ zs)" if "sublist xs zs" for xs ys zs :: jsstring
    using that by (simp add: sublist_append)
  have c: "sublist (lit ''Great job! You'' @ [0x27]
          @ lit ''ve met your 75% target. Keep up the consistent effort.'')
        (advice (handleGetAdvice echo_state))"
    unfolding advice_message f if_P[OF n]
    by (intro r w)
  show ?thesis using a b c by (simp add: excess_summary)
qed

lemma congratulation_chars:
  "congratulation t = 0x47 # tl (congratulation t)" "0x22 \<notin> set (congratulation t)"
  "0x47 \<in> set (congratulation t)"
  by (simp_all add: congratulation_def lit_def no_G_quote)

lemma no_G_in_template:
  "0x47 \<notin> set (percentage_report p)" "0x47 \<notin> set (classes_needed t n)"
  "0x47 \<notin> set generic_reminder"
  "0x47 \<notin> set ([0xA] @ lit ''Remember to account for your upcoming commitment: '' @ [0x22 :: 16 word])"
  "0x47 \<notin> set (lit ''. This might require extra focus on other classes to maintain your percentage.'')"
  by (simp_all add: percentage_report_def classes_needed_def generic_reminder_def lit_def no_G_quote)

lemma congratulation_only_echoed:
  assumes "sublist (congratulation t) (percentage_report p @ classes_needed t n
             @ (if trim fc \<noteq> [] then commitment_warning fc else generic_reminder))"
  shows "sublist (congratulation t) fc"
proof (cases "trim fc \<noteq> []")
  case False
  from set_mono_sublist[OF assms] congratulation_chars(3)[of t]
  have "0x47 \<in> set (percentage_report p @ classes_needed t n @ generic_reminder)"
    using False by auto
  then show ?thesis using no_G_in_template(1-3) by simp
next
  case True
  define A where "A = percentage_report p @ classes_needed t n
     @ [0xA] @ lit ''Remember to account for your upcoming commitment: '' @ [0x22 :: 16 word]"
  define B where "B = lit ''. This might require extra focus on other classes to maintain your percentage.''"
  have gA: "0x47 \<notin> set A"
    unfolding A_def using no_G_in_template(1,2,4) by simp
  have gB: "0x47 \<notin> set B" unfolding B_def by (rule no_G_in_template(5))
  have "percentage_report p @ classes_needed t n @ commitment_warning fc = A @ fc @ 0x22 # B"
    unfolding A_def B_def commitment_warning_def by (simp only: append_assoc append_Cons append_Nil)
  with assms True have "sublist (congratulation t) (A @ fc @ 0x22 # B)" by simp
  then have "sublist (0x47 # tl (congratulation t)) (A @ fc @ 0x22 # B)"
    using congratulation_chars(1)[of t] by simp
  from sublist_skip[OF gA this] have "sublist (congratulation t) (fc @ 0x22 # B)"
    using congratulation_chars(1)[of t] by simp
  from sublist_split[OF congratulation_chars(2) this]
  show ?thesis
  proof
    assume "sublist (congratulation t) B"
    from set_mono_sublist[OF this] congratulation_chars(3)[of t] gB show ?thesis by auto
  qed
qed

text \<open>
  C6, amended. For every state the message \<open>handleGetAdvice\<close> stores in \<open>advice\<close> is the
  report, one sentence and a closing. The report gives the overall percentage formatted by
  \<open>toFixed(2)\<close>, which for a finite percentage below \<open>10^21\<close> in magnitude has exactly two
  digits after the point, rounded half up. The sentence directly after the report is the
  congratulation exactly when \<open>overallPercentage \<ge> targetPercentage\<close>, and when the
  commitments do not themselves contain the congratulation, the message contains it exactly
  then; otherwise the sentence gives \<open>calculateProjection totalPresent totalConducted
  target\<close> as the classes to attend without fail. The message ends with the warning that
  quotes \<open>futureCommitments\<close> unchanged when that text is not empty after trimming, and
  with the generic reminder otherwise.
\<close>

theorem handleGetAdvice_message:
  "let sm = compute_summary (subjects st);
       pct = overallPercentage sm;
       target = targetAdvicePercentage st;
       fc = futureCommitments st;
       needed = calculateProjection (totalPresent sm) (totalConducted sm) target;
       msg = advice (handleGetAdvice st);
       report = lit ''Your current overall attendance is '' @ toFixed 2 pct @ lit ''%. '';
       congrats = lit ''Great job! You'' @ [0x27] @ lit ''ve met your '' @ Number_toString target
                  @ lit ''% target. Keep up the consistent effort.'';
       projection = lit ''To reach your '' @ Number_toString target
                  @ lit ''% goal, you need to attend the next '' @ Number_toString needed
                  @ lit '' classes without fail. '';
       warning = [0xA] @ lit ''Remember to account for your upcoming commitment: ''
                  @ [0x22] @ fc @ [0x22]
                  @ lit ''. This might require extra focus on other classes to maintain your percentage.'';
       reminder = [0xA]
                  @ lit ''Prioritize your upcoming classes and plan your schedule to avoid any unnecessary absences.''
   in msg = report @ (if js_ge pct target then congrats else projection)
              @ (if trim fc \<noteq> [] then warning else reminder)
      \<and> prefix report msg
      \<and> (\<forall>r. pct = Fin r \<and> \<bar>r\<bar> < 10 ^ 21 \<longrightarrow>
            (\<exists>ip fp. toFixed 2 pct = (if r < 0 then lit ''-'' else []) @ ip @ lit ''.'' @ fp
               \<and> ip \<noteq> [] \<and> length fp = 2 \<and> list_all isDigit (ip @ fp)
               \<and> digits_value (ip @ fp) = \<lfloor>\<bar>r\<bar> * 100 + 1 / 2\<rfloor>))
      \<and> (js_ge pct target \<longleftrightarrow> prefix (report @ congrats) msg)
      \<and> (\<not> sublist congrats fc \<longrightarrow> (sublist congrats msg \<longleftrightarrow> js_ge pct target))
      \<and> (\<not> js_ge pct target \<longrightarrow> prefix (report @ projection) msg)
      \<and> (trim fc \<noteq> [] \<longrightarrow> suffix warning msg)
      \<and> (trim fc = [] \<longrightarrow> suffix reminder msg)"
proof -
  define sm where "sm = compute_summary (subjects st)"
  define pct where "pct = overallPercentage sm"
  define target where "target = targetAdvicePercentage st"
  define fc where "fc = futureCommitments st"
  define needed where "needed = calculateProjection (totalPresent sm) (totalConducted sm) target"
  define msg where "msg = advice (handleGetAdvice st)"
  define report where "report = percentage_report pct"
  define congrats where "congrats = congratulation target"
  define projection where "projection = classes_needed target needed"
  define warning where "warning = commitment_warning fc"
  define closing where "closing = (if trim fc \<noteq> [] then warning else generic_reminder)"
  have msg: "msg = report @ (if js_ge pct target then congrats else projection) @ closing"
    unfolding msg_def advice_message sm_def pct_def target_def fc_def needed_def closing_def
      report_def congrats_def projection_def warning_def ..
  have 0: "msg = report @ (if js_ge pct target then congrats else projection)
              @ (if trim fc \<noteq> [] then warning else generic_reminder)"
    unfolding msg closing_def ..
  have 1: "prefix report msg" unfolding msg by simp
  have 2: "\<forall>r. pct = Fin r \<and> \<bar>r\<bar> < 10 ^ 21 \<longrightarrow>
            (\<exists>ip fp. toFixed 2 pct = (if r < 0 then lit ''-'' else []) @ ip @ lit ''.'' @ fp
               \<and> ip \<noteq> [] \<and> length fp = 2 \<and> list_all isDigit (ip @ fp)
               \<and> digits_value (ip @ fp) = \<lfloor>\<bar>r\<bar> * 100 + 1 / 2\<rfloor>)"
  proof (intro allI impI)
    fix r assume a: "pct = Fin r \<and> \<bar>r\<bar> < 10 ^ 21"
    then have "\<bar>r\<bar> < 10 ^ 21" by simp
    from toFixed_two_decimals[OF this] a
    show "\<exists>ip fp. toFixed 2 pct = (if r < 0 then lit ''-'' else []) @ ip @ lit ''.'' @ fp
               \<and> ip \<noteq> [] \<and> length fp = 2 \<and> list_all isDigit (ip @ fp)
               \<and> digits_value (ip @ fp) = \<lfloor>\<bar>r\<bar> * 100 + 1 / 2\<rfloor>" by simp
  qed
  have 3: "js_ge pct target \<longleftrightarrow> prefix (report @ congrats) msg"
    unfolding msg report_def congrats_def projection_def
    by (simp add: congratulation_not_prefix)
  have 4: "\<not> sublist congrats fc \<longrightarrow> (sublist congrats msg \<longleftrightarrow> js_ge pct target)"
  proof (intro impI iffI)
    assume "js_ge pct target"
    then have "msg = report @ congrats @ closing" unfolding msg by simp
    then show "sublist congrats msg" by simp
  next
    assume n: "\<not> sublist congrats fc" and s: "sublist congrats msg"
    show "js_ge pct target"
    proof (rule ccontr)
      assume "\<not> js_ge pct target"
      then have "msg = percentage_report pct @ classes_needed target needed
             @ (if trim fc \<noteq> [] then commitment_warning fc else generic_reminder)"
        unfolding msg closing_def report_def projection_def warning_def by simp
      with s have "sublist (congratulation target) (percentage_report pct
             @ classes_needed target needed
             @ (if trim fc \<noteq> [] then commitment_warning fc else generic_reminder))"
        unfolding congrats_def by simp
      then have "sublist (congratulation target) fc" by (rule congratulation_only_echoed)
      with n show False unfolding congrats_def by simp
    qed
  qed
  have 5: "\<not> js_ge pct target \<longrightarrow> prefix (report @ projection) msg"
    unfolding msg by simp
  have 6: "trim fc \<noteq> [] \<longrightarrow> suffix warning msg"
    unfolding msg closing_def by (simp add: suffix_def)
  have 7: "trim fc = [] \<longrightarrow> suffix generic_reminder msg"
    unfolding msg closing_def by (simp add: suffix_def)
  have all: "msg = report @ (if js_ge pct target then congrats else projection)
              @ (if trim fc \<noteq> [] then warning else generic_reminder)
      \<and> prefix report msg
      \<and> (\<forall>r. pct = Fin r \<and> \<bar>r\<bar> < 10 ^ 21 \<longrightarrow>
            (\<exists>ip fp. toFixed 2 pct = (if r < 0 then lit ''-'' else []) @ ip @ lit ''.'' @ fp
               \<and> ip \<noteq> [] \<and> length fp = 2 \<and> list_all isDigit (ip @ fp)
               \<and> digits_value (ip @ fp) = \<lfloor>\<bar>r\<bar> * 100 + 1 / 2\<rfloor>))
      \<and> (js_ge pct target \<longleftrightarrow> prefix (report @ congrats) msg)
      \<and> (\<not> sublist congrats fc \<longrightarrow> (sublist congrats msg \<longleftrightarrow> js_ge pct target))
      \<and> (\<not> js_ge pct target \<longrightarrow> prefix (report @ projection) msg)
      \<and> (trim fc \<noteq> [] \<longrightarrow> suffix warning msg)
      \<and> (trim fc = [] \<longrightarrow> suffix generic_reminder msg)"
    by (intro conjI 0 1 2 3 4 5 6 7)
  show ?thesis
    unfolding Let_def
    using all
    unfolding report_def congrats_def projection_def warning_def
      percentage_report_def congratulation_def classes_needed_def commitment_warning_def
      generic_reminder_def msg_def needed_def fc_def target_def pct_def sm_def .
qed

theorem handleGetAdvice_message_witness:
  "overallPercentage (compute_summary (subjects sample_state)) = Fin 0
   \<and> targetAdvicePercentage sample_state = Fin 75
   \<and> futureCommitments sample_state = lit ''Doctor''
   \<and> \<not> js_ge (Fin 0) (Fin 75)
   \<and> trim (lit ''Doctor'') \<noteq> []
   \<and> \<bar>0 :: rat\<bar> < 10 ^ 21
   \<and> \<not> sublist (lit ''Great job! You'' @ [0x27] @ lit ''ve met your '' @ lit ''75''
                  @ lit ''% target. Keep up the consistent effort.'') (lit ''Doctor'')
   \<and> advice (handleGetAdvice sample_state)
       = (lit ''Your current overall attendance is '' @ lit ''0.00'' @ lit ''%. '')
         @ (lit ''To reach your '' @ lit ''75'' @ lit ''% goal, you need to attend the next ''
            @ lit ''0'' @ lit '' classes without fail. '')
         @ ([0xA] @ lit ''Remember to account for your upcoming commitment: ''
            @ [0x22] @ lit ''Doctor'' @ [0x22]
            @ lit ''. This might require extra focus on other classes to maintain your percentage.'')
   \<and> prefix (lit ''Your current overall attendance is '' @ lit ''0.00'' @ lit ''%. '')
         (advice (handleGetAdvice sample_state))
   \<and> (\<exists>ip fp. lit ''0.00'' = ip @ lit ''.'' @ fp
          \<and> ip \<noteq> [] \<and> length fp = 2 \<and> list_all isDigit (ip @ fp) \<and> digits_value (ip @ fp) = 0)
   \<and> \<not> sublist (lit ''Great job! You'' @ [0x27] @ lit ''ve met your '' @ lit ''75''
                  @ lit ''% target. Keep up the consistent effort.'')
         (advice (handleGetAdvice sample_state))
   \<and> prefix ((lit ''Your current overall attendance is '' @ lit ''0.00'' @ lit ''%. '')
         @ (lit ''To reach your '' @ lit ''75'' @ lit ''% goal, you need to attend the next ''
            @ lit ''0'' @ lit '' classes without fail. ''))
         (advice (handleGetAdvice sample_state))
   \<and> suffix ([0xA] @ lit ''Remember to account for your upcoming commitment: ''
            @ [0x22] @ lit ''Doctor'' @ [0x22]
            @ lit ''. This might require extra focus on other classes to maintain your percentage.'')
         (advice (handleGetAdvice sample_state))
   \<and> js_ge (overallPercentage (compute_summary ([sample_subject]))) (Fin 75)
   \<and> trim (lit ''  '') = []
   \<and> prefix ((lit ''Your current overall attendance is '' @ lit ''75.00'' @ lit ''%. '')
         @ (lit ''Great job! You'' @ [0x27] @ lit ''ve met your '' @ lit ''75''
                  @ lit ''% target. Keep up the consistent effort.''))
         (advice (handleGetAdvice
            (sample_state\<lparr>subjects := [sample_subject], futureCommitments := lit ''  ''\<rparr>)))
   \<and> suffix ([0xA]
         @ lit ''Prioritize your upcoming classes and plan your schedule to avoid any unnecessary absences.'')
         (advice (handleGetAdvice
            (sample_state\<lparr>subjects := [sample_subject], futureCommitments := lit ''  ''\<rparr>)))"
proof -
  let ?congrats = "lit ''Great job! You'' @ [0x27] @ lit ''ve met your '' @ lit ''75''
                  @ lit ''% target. Keep up the consistent effort.''"
  have pct: "overallPercentage (compute_summary (subjects sample_state)) = Fin 0"
    by (simp add: sample_summary)
  have tot: "totalPresent (compute_summary (subjects sample_state)) = Fin 0"
    "totalConducted (compute_summary (subjects sample_state)) = Fin 0"
    by (simp_all add: sample_summary)
  have tg: "targetAdvicePercentage sample_state = Fin 75" by (simp add: sample_state_def)
  have fc: "futureCommitments sample_state = lit ''Doctor''" by (simp add: sample_state_def)
  have h1: "\<not> js_ge (Fin 0) (Fin 75)" by (simp add: js_ge_def)
  have h2: "trim (lit ''Doctor'') \<noteq> []"
    by (simp add: trim_def trimStart_def trimEnd_def lit_def isWhiteSpace_def)
  have h3: "\<not> sublist ?congrats (lit ''Doctor'')"
  proof
    assume "sublist ?congrats (lit ''Doctor'')"
    from set_mono_sublist[OF this] show False by (simp add: lit_def)
  qed
  note T = handleGetAdvice_message[of sample_state, unfolded Let_def pct tot tg fc sample_projection
      toFixed_zero Number_toString_75 Number_toString_zero]
  from T h1 h2 have p0: "advice (handleGetAdvice sample_state)
       = (lit ''Your current overall attendance is '' @ lit ''0.00'' @ lit ''%. '')
         @ (lit ''To reach your '' @ lit ''75'' @ lit ''% goal, you need to attend the next ''
            @ lit ''0'' @ lit '' classes without fail. '')
         @ ([0xA] @ lit ''Remember to account for your upcoming commitment: ''
            @ [0x22] @ lit ''Doctor'' @ [0x22]
            @ lit ''. This might require extra focus on other classes to maintain your percentage.'')"
    by (simp only: if_False if_True not_False_eq_True)
  from T have p1: "prefix (lit ''Your current overall attendance is '' @ lit ''0.00'' @ lit ''%. '')
         (advice (handleGetAdvice sample_state))" by (rule conjunct1[OF conjunct2])
  from T have "\<forall>r. Fin 0 = Fin r \<and> \<bar>r\<bar> < 10 ^ 21 \<longrightarrow>
      (\<exists>ip fp. lit ''0.00'' = (if r < 0 then lit ''-'' else []) @ ip @ lit ''.'' @ fp
          \<and> ip \<noteq> [] \<and> length fp = 2 \<and> list_all isDigit (ip @ fp)
          \<and> digits_value (ip @ fp) = \<lfloor>\<bar>r\<bar> * 100 + 1 / 2\<rfloor>)" by blast
  from this[rule_format, of 0] have p2: "\<exists>ip fp. lit ''0.00'' = ip @ lit ''.'' @ fp
          \<and> ip \<noteq> [] \<and> length fp = 2 \<and> list_all isDigit (ip @ fp) \<and> digits_value (ip @ fp) = 0"
    by (simp add: floor_half)
  from T h3 h1 have p3: "\<not> sublist ?congrats (advice (handleGetAdvice sample_state))" by blast
  from T h1 have p4: "prefix ((lit ''Your current overall attendance is '' @ lit ''0.00'' @ lit ''%. '')
         @ (lit ''To reach your '' @ lit ''75'' @ lit ''% goal, you need to attend the next ''
            @ lit ''0'' @ lit '' classes without fail. ''))
         (advice (handleGetAdvice sample_state))" by blast
  from T h2 have p5: "suffix ([0xA] @ lit ''Remember to account for your upcoming commitment: ''
            @ [0x22] @ lit ''Doctor'' @ [0x22]
            @ lit ''. This might require extra focus on other classes to maintain your percentage.'')
         (advice (handleGetAdvice sample_state))" by blast
  let ?st = "sample_state\<lparr>subjects := [sample_subject], futureCommitments := lit ''  ''\<rparr>"
  have s2: "subjects ?st = [sample_subject]" "targetAdvicePercentage ?st = Fin 75"
    "futureCommitments ?st = lit ''  ''"
    by (simp_all add: sample_state_def)
  have m: "overallPercentage (compute_summary ([sample_subject])) = Fin 75"
    by (simp add: met_summary)
  have g1: "js_ge (Fin 75) (Fin 75)" by (simp add: js_ge_def)
  have g2: "trim (lit ''  '') = []"
    by (simp add: trim_def trimStart_def trimEnd_def lit_def isWhiteSpace_def)
  note U = handleGetAdvice_message[of ?st, unfolded Let_def s2 m toFixed_75 Number_toString_75]
  from U g1 have q1: "prefix ((lit ''Your current overall attendance is '' @ lit ''75.00'' @ lit ''%. '')
         @ ?congrats) (advice (handleGetAdvice ?st))" by blast
  from U g2 have q2: "suffix ([0xA]
         @ lit ''Prioritize your upcoming classes and plan your schedule to avoid any unnecessary absences.'')
         (advice (handleGetAdvice ?st))" by blast
  have z: "\<bar>0 :: rat\<bar> < 10 ^ 21" by simp
  have mg: "js_ge (overallPercentage (compute_summary ([sample_subject]))) (Fin 75)"
    unfolding m by (rule g1)
  show ?thesis
    by (intro conjI pct tg fc h1 h2 z h3 p0 p1 p2 p3 p4 p5 mg g2 q1 q2)
qed

end
